theory Spec2Isabelle
  imports Main "HOL-Library.Log_Nat" "HOL-Library.Word"
begin

unbundle bit_operations_syntax

section \<open>Python numbers\<close>

text \<open>
  Python integers are unbounded and are modelled by \<open>int\<close>.  A Python float is an IEEE-754
  binary64 number; every such number is a rational, and an arithmetic operation on floats
  returns the exact result rounded to the nearest representable number, ties to even.
  \<open>round_to p\<close> is that rounding for a significand of \<open>p\<close> bits (exponent range
  unbounded: overflow and subnormals do not occur for the magnitudes of image sizes and
  parameters used here).  \<open>double\<close> is Python's float, \<open>float32\<close> is numpy's.
\<close>

definition round_half_even :: "rat \<Rightarrow> int" where
  "round_half_even q =
     (let f = \<lfloor>q\<rfloor>; r = q - of_int f
      in if r < 1 / 2 then f else if 1 / 2 < r then f + 1 else if even f then f else f + 1)"

definition binade :: "rat \<Rightarrow> int" where
  "binade a =
     (let (n, d) = quotient_of a; e0 = bitlen n - bitlen d
      in if power_int 2 e0 \<le> a then e0 else e0 - 1)"

definition round_to :: "nat \<Rightarrow> rat \<Rightarrow> rat" where
  "round_to p q =
     (if q = 0 then 0
      else let a = \<bar>q\<bar>; e = binade a;
               m = round_half_even (a * power_int 2 (int p - 1 - e))
           in sgn q * of_int m * power_int 2 (e - (int p - 1)))"

definition double :: "rat \<Rightarrow> rat" where
  "double q = round_to 53 q"

definition float32 :: "rat \<Rightarrow> rat" where
  "float32 q = round_to 24 q"

text \<open>\<open>int(x)\<close> on a float truncates toward zero.\<close>

definition py_int :: "rat \<Rightarrow> int" where
  "py_int q = (if 0 \<le> q then \<lfloor>q\<rfloor> else \<lceil>q\<rceil>)"

text \<open>\<^verbatim>\<open>def clamp(v, a, b): return max(a, min(b, v))\<close>\<close>

definition clamp :: "'a::linorder \<Rightarrow> 'a \<Rightarrow> 'a \<Rightarrow> 'a" where
  "clamp v a b = max a (min b v)"

text \<open>\<^verbatim>\<open>PURPLE = (140, 90, 255)\<close>, an RGB triple.\<close>

definition PURPLE :: "int \<times> int \<times> int" where
  "PURPLE = (140, 90, 255)"

section \<open>Image buffers\<close>

text \<open>
  A numpy array of shape \<open>(height, width)\<close> (or \<open>(height, width, 3)\<close> with a triple per
  pixel) is a record of its two dimensions and its samples in row-major order.  A shape
  with a zero dimension is a legal array without samples.  \<open>uint8\<close> samples are 8-bit
  words; a colour pixel is the triple of its channels in storage order (B, G, R).
\<close>

type_synonym byte = "8 word"

record 'a image =
  height :: nat
  width :: nat
  pixels :: "'a list"

type_synonym gray = "byte image"
type_synonym bgr = "(byte \<times> byte \<times> byte) image"
type_synonym 'a raster = "nat \<Rightarrow> nat \<Rightarrow> 'a"

definition mk_image :: "nat \<Rightarrow> nat \<Rightarrow> 'a raster \<Rightarrow> 'a image" where
  "mk_image h w f =
     \<lparr>height = h, width = w, pixels = map (\<lambda>i. f (i div w) (i mod w)) [0..<h * w]\<rparr>"

definition map_image :: "('a \<Rightarrow> 'b) \<Rightarrow> 'a image \<Rightarrow> 'b image" where
  "map_image f img = \<lparr>height = height img, width = width img, pixels = map f (pixels img)\<rparr>"

definition is_empty :: "'a image \<Rightarrow> bool" where
  "is_empty img = (height img = 0 \<or> width img = 0)"

definition same_shape :: "'a image \<Rightarrow> 'b image \<Rightarrow> bool" where
  "same_shape a b = (height a = height b \<and> width a = width b)"

text \<open>
  The sample at (row, col), and zero outside the array: the read of a zero-padded copy
  (skeletonize) and of a border that never wins a maximum (dilate).
\<close>

definition get_px :: "'a::zero image \<Rightarrow> int \<Rightarrow> int \<Rightarrow> 'a" where
  "get_px img r c =
     (if 0 \<le> r \<and> r < int (height img) \<and> 0 \<le> c \<and> c < int (width img)
         \<and> nat r * width img + nat c < length (pixels img)
      then pixels img ! (nat r * width img + nat c) else 0)"

definition count_nonzero :: "'a::zero image \<Rightarrow> nat" where
  "count_nonzero img = length (filter (\<lambda>p. p \<noteq> 0) (pixels img))"

section \<open>Errors\<close>

text \<open>
  The pipeline has no \<open>raise\<close> of its own; it fails when a library call raises:
  \<open>cv2.error\<close> from OpenCV, \<open>IndexError\<close> from a boolean-mask assignment of the wrong shape.
\<close>

datatype error = CvError | IndexError

definition bind :: "error + 'a \<Rightarrow> ('a \<Rightarrow> error + 'b) \<Rightarrow> error + 'b" where
  "bind m f = (case m of Inl e \<Rightarrow> Inl e | Inr x \<Rightarrow> f x)"

section \<open>The image library\<close>

text \<open>
  OpenCV, numpy and scikit-image are not part of the repository.  Of each library call
  the model fixes what its documentation fixes and the pipeline relies on: the shape of
  the result and the arguments it rejects.  The sample values of the numerical filters
  (rescaling, colour conversion, smoothing, equalisation, edge detection, thresholding,
  opening and closing, the power function, the thinning table) are parameters, collected
  in the record \<open>cvlib\<close>; every theorem below holds for all of them.
\<close>

datatype interpolation = INTER_NEAREST | INTER_AREA
datatype color_code = COLOR_BGR2GRAY
datatype adaptive_method = ADAPTIVE_THRESH_MEAN_C | ADAPTIVE_THRESH_GAUSSIAN_C
datatype threshold_type = THRESH_BINARY | THRESH_BINARY_INV
datatype morph_op = MORPH_OPEN | MORPH_CLOSE
datatype morph_shape = MORPH_RECT | MORPH_CROSS | MORPH_ELLIPSE

record cvlib =
  resize_bgr_px :: "bgr \<Rightarrow> nat \<Rightarrow> nat \<Rightarrow> interpolation \<Rightarrow> (byte \<times> byte \<times> byte) raster"
  resize_float_px :: "rat image \<Rightarrow> nat \<Rightarrow> nat \<Rightarrow> interpolation \<Rightarrow> rat raster"
  resize_gray_px :: "gray \<Rightarrow> nat \<Rightarrow> nat \<Rightarrow> interpolation \<Rightarrow> byte raster"
  cvtColor_px :: "bgr \<Rightarrow> color_code \<Rightarrow> byte raster"
  bilateralFilter_px :: "gray \<Rightarrow> int \<Rightarrow> rat \<Rightarrow> rat \<Rightarrow> byte raster"
  clahe_px :: "rat \<Rightarrow> nat \<times> nat \<Rightarrow> gray \<Rightarrow> byte raster"
  GaussianBlur_px :: "gray \<Rightarrow> nat \<times> nat \<Rightarrow> rat \<Rightarrow> byte raster"
  addWeighted_px :: "gray \<Rightarrow> rat \<Rightarrow> gray \<Rightarrow> rat \<Rightarrow> rat \<Rightarrow> byte raster"
  Canny_px :: "gray \<Rightarrow> int \<Rightarrow> int \<Rightarrow> byte raster"
  adaptiveThreshold_px ::
    "gray \<Rightarrow> int \<Rightarrow> adaptive_method \<Rightarrow> threshold_type \<Rightarrow> int \<Rightarrow> int \<Rightarrow> byte raster"
  morphologyEx_px :: "gray \<Rightarrow> morph_op \<Rightarrow> gray \<Rightarrow> nat \<Rightarrow> byte raster"
  skeleton_lut :: "nat \<Rightarrow> nat"
  np_power :: "rat \<Rightarrow> rat \<Rightarrow> rat"

text \<open>
  \<open>cv2.resize(src, (W, H), interpolation=...)\<close>: the result has \<open>H\<close> rows and \<open>W\<close> columns.
  OpenCV asserts that the source is not empty and, when the requested size has a
  dimension that is not positive, falls back to the scale factors \<open>fx\<close>, \<open>fy\<close>, which
  default to 0 and fail its assertion: both cases raise \<open>cv2.error\<close>.
\<close>

definition cv_resize ::
  "('a image \<Rightarrow> nat \<Rightarrow> nat \<Rightarrow> interpolation \<Rightarrow> 'b raster) \<Rightarrow>
   'a image \<Rightarrow> int \<times> int \<Rightarrow> interpolation \<Rightarrow> error + 'b image" where
  "cv_resize f src dsize interp =
     (case dsize of (W, H) \<Rightarrow>
        if is_empty src \<or> W \<le> 0 \<or> H \<le> 0 then Inl CvError
        else Inr (mk_image (nat H) (nat W) (f src (nat W) (nat H) interp)))"

text \<open>\<open>cv2.cvtColor\<close> asserts that its source is not empty.\<close>

definition cvtColor :: "cvlib \<Rightarrow> bgr \<Rightarrow> color_code \<Rightarrow> error + gray" where
  "cvtColor L src code =
     (if is_empty src then Inl CvError
      else Inr (mk_image (height src) (width src) (cvtColor_px L src code)))"

text \<open>
  The smoothing, equalisation, blending, edge and morphology filters return an array of
  the shape of their (first) source.  In the pipeline they only receive the non-empty
  single-channel 8-bit arrays that they accept.
\<close>

definition bilateralFilter :: "cvlib \<Rightarrow> gray \<Rightarrow> int \<Rightarrow> rat \<Rightarrow> rat \<Rightarrow> gray" where
  "bilateralFilter L src d sigmaColor sigmaSpace =
     mk_image (height src) (width src) (bilateralFilter_px L src d sigmaColor sigmaSpace)"

definition clahe_apply :: "cvlib \<Rightarrow> rat \<Rightarrow> nat \<times> nat \<Rightarrow> gray \<Rightarrow> gray" where
  "clahe_apply L clipLimit tileGridSize src =
     mk_image (height src) (width src) (clahe_px L clipLimit tileGridSize src)"

definition GaussianBlur :: "cvlib \<Rightarrow> gray \<Rightarrow> nat \<times> nat \<Rightarrow> rat \<Rightarrow> gray" where
  "GaussianBlur L src ksize sigmaX =
     mk_image (height src) (width src) (GaussianBlur_px L src ksize sigmaX)"

definition addWeighted :: "cvlib \<Rightarrow> gray \<Rightarrow> rat \<Rightarrow> gray \<Rightarrow> rat \<Rightarrow> rat \<Rightarrow> gray" where
  "addWeighted L src1 alpha src2 beta gamma =
     mk_image (height src1) (width src1) (addWeighted_px L src1 alpha src2 beta gamma)"

definition Canny :: "cvlib \<Rightarrow> gray \<Rightarrow> int \<Rightarrow> int \<Rightarrow> gray" where
  "Canny L src threshold1 threshold2 =
     mk_image (height src) (width src) (Canny_px L src threshold1 threshold2)"

definition morphologyEx :: "cvlib \<Rightarrow> gray \<Rightarrow> morph_op \<Rightarrow> gray \<Rightarrow> nat \<Rightarrow> gray" where
  "morphologyEx L src op ker iterations =
     mk_image (height src) (width src) (morphologyEx_px L src op ker iterations)"

text \<open>\<open>cv2.adaptiveThreshold\<close> asserts \<open>blockSize % 2 == 1 && blockSize > 1\<close>.\<close>

definition adaptiveThreshold ::
  "cvlib \<Rightarrow> gray \<Rightarrow> int \<Rightarrow> adaptive_method \<Rightarrow> threshold_type \<Rightarrow> int \<Rightarrow> int \<Rightarrow> error + gray" where
  "adaptiveThreshold L src maxValue method ty blockSize C =
     (if blockSize mod 2 = 1 \<and> 1 < blockSize
      then Inr (mk_image (height src) (width src)
                  (adaptiveThreshold_px L src maxValue method ty blockSize C))
      else Inl CvError)"

text \<open>\<open>cv2.bitwise_or\<close> of two arrays: sample by sample; arrays of different sizes are rejected.\<close>

definition bitwise_or :: "gray \<Rightarrow> gray \<Rightarrow> error + gray" where
  "bitwise_or a b =
     (if \<not> same_shape a b then Inl CvError
      else Inr \<lparr>height = height a, width = width a,
                pixels = map (\<lambda>(x, y). x OR y) (zip (pixels a) (pixels b))\<rparr>)"

text \<open>
  numpy: \<open>np.zeros_like(a)\<close>, \<open>np.ones((h, w), np.uint8)\<close>, \<open>a > v\<close>, \<open>.astype(np.uint8)\<close> of a
  boolean array, \<open>a * 255\<close> and \<open>255 - a\<close> on \<open>uint8\<close> (which wrap), and the assignment
  \<open>out[mask == v] = colour\<close>, which raises \<open>IndexError\<close> when the mask has another shape.
\<close>

definition zeros_like :: "gray \<Rightarrow> gray" where
  "zeros_like a = \<lparr>height = height a, width = width a,
                   pixels = replicate (height a * width a) 0\<rparr>"

definition ones :: "nat \<Rightarrow> nat \<Rightarrow> gray" where
  "ones h w = mk_image h w (\<lambda>r c. 1)"

definition greater_than :: "'a::linorder image \<Rightarrow> 'a \<Rightarrow> bool image" where
  "greater_than a v = map_image (\<lambda>p. v < p) a"

definition astype_uint8 :: "bool image \<Rightarrow> gray" where
  "astype_uint8 a = map_image (\<lambda>b. if b then 1 else 0) a"

definition times255 :: "gray \<Rightarrow> gray" where
  "times255 a = map_image (\<lambda>p. p * 255) a"

definition masked_assign ::
  "bgr \<Rightarrow> gray \<Rightarrow> byte \<Rightarrow> byte \<times> byte \<times> byte \<Rightarrow> error + bgr" where
  "masked_assign out msk v colour =
     (if \<not> same_shape msk out then Inl IndexError
      else Inr \<lparr>height = height out, width = width out,
                pixels = map (\<lambda>(m, p). if m = v then colour else p)
                           (zip (pixels msk) (pixels out))\<rparr>)"

section \<open>Thinning\<close>

text \<open>
  Modelled from the spec: the thinning routine, \<open>skimage.morphology.skeletonize\<close>, is
  library code outside the repository.  The spec (4.5) describes it as iterative thinning
  that removes boundary pixels and repeats to a fixed point; the model gives that
  iteration the shape it has in the library.  On a two-dimensional array the library
  runs the table-driven thinning of Zhang and Suen.  It copies \<open>image > 0\<close> into a
  zero-padded \<open>uint8\<close> array and repeats a pair of sweeps for as long as a sweep removed
  a pixel.  A sweep looks at every
  set pixel of the array as it was before the sweep, numbers its eight neighbours
  (clockwise from the upper left, weights 1, 2, 4, ..., 128), looks the number up in a
  table of 256 entries, and clears the pixel when the entry is 3, or 1 in the first
  sweep of a pair, or 2 in the second.  The table is the parameter \<open>skeleton_lut\<close>.
\<close>

definition neighbours_code :: "gray \<Rightarrow> int \<Rightarrow> int \<Rightarrow> nat" where
  "neighbours_code sk r c =
     unat (get_px sk (r - 1) (c - 1)) + 2 * unat (get_px sk (r - 1) c)
     + 4 * unat (get_px sk (r - 1) (c + 1)) + 8 * unat (get_px sk r (c + 1))
     + 16 * unat (get_px sk (r + 1) (c + 1)) + 32 * unat (get_px sk (r + 1) c)
     + 64 * unat (get_px sk (r + 1) (c - 1)) + 128 * unat (get_px sk r (c - 1))"

definition cleared :: "(nat \<Rightarrow> nat) \<Rightarrow> bool \<Rightarrow> gray \<Rightarrow> nat \<Rightarrow> nat \<Rightarrow> bool" where
  "cleared lut first_pass sk r c =
     (get_px sk (int r) (int c) \<noteq> 0 \<and>
      (let neighbors = lut (neighbours_code sk (int r) (int c))
       in neighbors = 3 \<or> (neighbors = 1 \<and> first_pass) \<or> (neighbors = 2 \<and> \<not> first_pass)))"

text \<open>One sweep: the array after it, and whether it removed a pixel.\<close>

definition thin_pass :: "(nat \<Rightarrow> nat) \<Rightarrow> bool \<Rightarrow> gray \<Rightarrow> gray \<times> bool" where
  "thin_pass lut first_pass sk =
     (mk_image (height sk) (width sk)
        (\<lambda>r c. if cleared lut first_pass sk r c then 0 else get_px sk (int r) (int c)),
      list_ex (\<lambda>i. cleared lut first_pass sk (i div width sk) (i mod width sk))
        [0..<height sk * width sk])"

text \<open>The number of set pixels of the array: what every effective sweep decreases.\<close>

definition set_pixels :: "gray \<Rightarrow> nat" where
  "set_pixels sk =
     length (filter (\<lambda>i. get_px sk (int (i div width sk)) (int (i mod width sk)) \<noteq> 0)
       [0..<height sk * width sk])"

text \<open>Every sweep that removes a pixel leaves fewer set pixels, so the loop ends.\<close>

lemma get_px_mk_image:
  "r < h \<Longrightarrow> c < w \<Longrightarrow> get_px (mk_image h w f) (int r) (int c) = f r c"
proof -
  assume r: "r < h" and c: "c < w"
  have "r * w + c < Suc r * w" using c by simp
  also have "\<dots> \<le> h * w" using r by (intro mult_le_mono1) simp
  finally have idx: "r * w + c < h * w" .
  have "(r * w + c) div w = r" "(r * w + c) mod w = c" using c by simp_all
  then show ?thesis using r c idx by (simp add: get_px_def mk_image_def)
qed

lemma index_coords: "(i::nat) < h * w \<Longrightarrow> i div w < h \<and> i mod w < w"
proof -
  assume i: "i < h * w"
  then have w: "0 < w" by (cases w) simp_all
  have "i div w < h" using i by (simp add: less_mult_imp_div_less)
  then show ?thesis using w by simp
qed
lemma filter_length_le:
  "(\<And>x. x \<in> set xs \<Longrightarrow> Q x \<Longrightarrow> P x) \<Longrightarrow> length (filter Q xs) \<le> length (filter P xs)"
  by (induction xs) auto

lemma filter_length_less:
  "(\<And>x. x \<in> set xs \<Longrightarrow> Q x \<Longrightarrow> P x) \<Longrightarrow> \<exists>x\<in>set xs. P x \<and> \<not> Q x \<Longrightarrow>
   length (filter Q xs) < length (filter P xs)"
proof (induction xs)
  case Nil
  then show ?case by simp
next
  case (Cons a xs)
  have le: "length (filter Q xs) \<le> length (filter P xs)"
    using Cons.prems(1) by (intro filter_length_le) simp
  show ?case
  proof (cases "P a \<and> \<not> Q a")
    case True
    then show ?thesis using le by simp
  next
    case False
    then have "\<exists>x\<in>set xs. P x \<and> \<not> Q x" using Cons.prems(2) by auto
    then have "length (filter Q xs) < length (filter P xs)"
      using Cons.IH Cons.prems(1) by simp
    then show ?thesis using Cons.prems(1) by auto
  qed
qed

lemma thin_pass_shape:
  "height (fst (thin_pass lut fp sk)) = height sk \<and> width (fst (thin_pass lut fp sk)) = width sk"
  by (simp add: thin_pass_def mk_image_def)

lemma thin_pass_get:
  "i < height sk * width sk \<Longrightarrow>
   get_px (fst (thin_pass lut fp sk)) (int (i div width sk)) (int (i mod width sk)) =
     (if cleared lut fp sk (i div width sk) (i mod width sk) then 0
      else get_px sk (int (i div width sk)) (int (i mod width sk)))"
  using index_coords [of i "height sk" "width sk"]
  by (simp add: thin_pass_def get_px_mk_image)

lemma thin_pass_le: "set_pixels (fst (thin_pass lut fp sk)) \<le> set_pixels sk"
proof -
  let ?P = "\<lambda>i. get_px sk (int (i div width sk)) (int (i mod width sk)) \<noteq> 0"
  let ?Q = "\<lambda>i. get_px (fst (thin_pass lut fp sk)) (int (i div width sk)) (int (i mod width sk)) \<noteq> 0"
  let ?xs = "[0..<height sk * width sk]"
  have imp: "\<And>x. x \<in> set ?xs \<Longrightarrow> ?Q x \<Longrightarrow> ?P x"
  proof -
    fix x assume "x \<in> set ?xs" and q: "?Q x"
    then have "x < height sk * width sk" by simp
    from thin_pass_get [OF this, of lut fp] q show "?P x"
      by (simp split: if_splits)
  qed
  have "length (filter ?Q ?xs) \<le> length (filter ?P ?xs)"
    using imp by (rule filter_length_le)
  then show ?thesis by (simp add: set_pixels_def thin_pass_shape)
qed

lemma thin_pass_less:
  assumes "snd (thin_pass lut fp sk)"
  shows "set_pixels (fst (thin_pass lut fp sk)) < set_pixels sk"
proof -
  let ?P = "\<lambda>i. get_px sk (int (i div width sk)) (int (i mod width sk)) \<noteq> 0"
  let ?Q = "\<lambda>i. get_px (fst (thin_pass lut fp sk)) (int (i div width sk)) (int (i mod width sk)) \<noteq> 0"
  let ?xs = "[0..<height sk * width sk]"
  from assms obtain i where i: "i < height sk * width sk"
    and cl: "cleared lut fp sk (i div width sk) (i mod width sk)"
    by (auto simp: thin_pass_def list_ex_iff)
  have "?P i" using cl by (simp add: cleared_def)
  moreover have "\<not> ?Q i" using thin_pass_get [OF i, of lut fp] cl by simp
  ultimately have ex: "\<exists>x\<in>set ?xs. ?P x \<and> \<not> ?Q x" using i by auto
  have imp: "\<And>x. x \<in> set ?xs \<Longrightarrow> ?Q x \<Longrightarrow> ?P x"
  proof -
    fix x assume "x \<in> set ?xs" and q: "?Q x"
    then have "x < height sk * width sk" by simp
    from thin_pass_get [OF this, of lut fp] q show "?P x"
      by (simp split: if_splits)
  qed
  have "length (filter ?Q ?xs) < length (filter ?P ?xs)"
    using imp ex by (rule filter_length_less)
  then show ?thesis by (simp add: set_pixels_def thin_pass_shape)
qed

function skel_loop :: "(nat \<Rightarrow> nat) \<Rightarrow> gray \<Rightarrow> gray" where
  "skel_loop lut sk =
     (let p1 = thin_pass lut True sk; p2 = thin_pass lut False (fst p1)
      in if snd p1 \<or> snd p2 then skel_loop lut (fst p2) else fst p2)"
  by pat_completeness auto
termination
proof (relation "measure (\<lambda>(lut, sk). set_pixels sk)")
  show "wf (measure (\<lambda>(lut, sk). set_pixels sk))" by simp
next
  fix lut :: "nat \<Rightarrow> nat" and sk :: gray and p1 p2
  assume p1: "p1 = thin_pass lut True sk" and p2: "p2 = thin_pass lut False (fst p1)"
    and rm: "snd p1 \<or> snd p2"
  have a: "set_pixels (fst p1) \<le> set_pixels sk" unfolding p1 by (rule thin_pass_le)
  have b: "set_pixels (fst p2) \<le> set_pixels (fst p1)" unfolding p2 by (rule thin_pass_le)
  have "set_pixels (fst p2) < set_pixels sk"
  proof (cases "snd p1")
    case True
    then have "set_pixels (fst p1) < set_pixels sk" unfolding p1 by (rule thin_pass_less)
    then show ?thesis using b by simp
  next
    case False
    then have "snd p2" using rm by simp
    then have "set_pixels (fst p2) < set_pixels (fst p1)" unfolding p2 by (rule thin_pass_less)
    then show ?thesis using a by simp
  qed
  then show "((lut, fst p2), (lut, sk)) \<in> measure (\<lambda>(lut, sk). set_pixels sk)" by simp
qed

declare skel_loop.simps [simp del]


text \<open>The working copy of an array: its samples inside a border of zeros.\<close>

definition padded :: "gray \<Rightarrow> gray" where
  "padded a = mk_image (height a) (width a) (\<lambda>r c. get_px a (int r) (int c))"

text \<open>
  Modelled from the spec: \<open>skeletonize\<close> thins the working copy of \<open>image > 0\<close> to the fixed
  point of the sweeps and returns it as a boolean array.
\<close>

definition skeletonize :: "(nat \<Rightarrow> nat) \<Rightarrow> gray \<Rightarrow> bool image" where
  "skeletonize lut img =
     (let skeleton = padded (astype_uint8 (greater_than img 0))
      in greater_than (skel_loop lut skeleton) 0)"

section \<open>Structuring elements and dilation\<close>

text \<open>
  Modelled from the spec: the structuring element and the dilation are OpenCV's, outside
  the repository.  The spec (4.6) asks for one dilation by an elliptical element of size
  \<open>lineWeight x lineWeight\<close>; the model takes the element and the dilation as OpenCV
  documents them.
  \<open>cv2.getStructuringElement(shape, (kw, kh))\<close> with the default anchor (the centre).  Row \<open>i\<close>
  of an ellipse is set from column \<open>c - dx\<close> to \<open>c + dx\<close> (cut to the element), where
  \<open>r = kh / 2\<close>, \<open>c = kw / 2\<close>, \<open>dy = i - r\<close> and \<open>dx\<close> is \<open>c * sqrt((r*r - dy*dy) / (r*r))\<close>
  rounded to the nearest integer; a 1 x 1 element is a rectangle.  \<open>ellipse_dx\<close> computes
  that rounding in integers: the least \<open>m\<close> with \<open>2 * c * sqrt(r*r - dy*dy) \<le> (2 * m + 1) * r\<close>,
  and the even neighbour at a tie.  For the square sizes 1 to 8 the rounded value is at
  least 0.03 away from every tie, far more than the error of the floating-point evaluation.
\<close>

definition ellipse_dx :: "int \<Rightarrow> int \<Rightarrow> int \<Rightarrow> int" where
  "ellipse_dx c r dy =
     (if r = 0 then 0
      else let n = 4 * c * c * (r * r - dy * dy)
           in case find (\<lambda>m. n \<le> (2 * m + 1) * (2 * m + 1) * (r * r)) (map int [0..<nat c + 1]) of
                Some m \<Rightarrow> if n = (2 * m + 1) * (2 * m + 1) * (r * r) \<and> odd m then m + 1 else m
              | None \<Rightarrow> c)"

text \<open>
  Modelled from the spec: the structuring element of a shape and a size, an array of
  zeros and ones with \<open>kh\<close> rows and \<open>kw\<close> columns.
\<close>

definition getStructuringElement :: "morph_shape \<Rightarrow> int \<times> int \<Rightarrow> gray" where
  "getStructuringElement shape ksize =
     (case ksize of (kw, kh) \<Rightarrow>
        let shape = (if ksize = (1, 1) then MORPH_RECT else shape);
            r = kh div 2; c = kw div 2
        in mk_image (nat kh) (nat kw)
             (\<lambda>i j. let (j1, j2) =
                       (case shape of
                          MORPH_RECT \<Rightarrow> (0, kw)
                        | MORPH_CROSS \<Rightarrow> if int i = r then (0, kw) else (c, c + 1)
                        | MORPH_ELLIPSE \<Rightarrow>
                            let dy = int i - r
                            in if \<bar>dy\<bar> \<le> r
                               then let dx = ellipse_dx c r dy
                                    in (max (c - dx) 0, min (c + dx + 1) kw)
                               else (0, 0))
                     in if j1 \<le> int j \<and> int j < j2 then 1 else 0))"

text \<open>
  Modelled from the spec: one dilation by a structuring element.
  \<open>cv2.dilate(src, kernel, iterations=1)\<close>: every result sample is the maximum of the source
  samples under the non-zero entries of the kernel, the kernel's centre
  \<open>(kw / 2, kh / 2)\<close> placed on the sample; positions outside the source do not take part.
\<close>

definition kernel_offsets :: "gray \<Rightarrow> (int \<times> int) list" where
  "kernel_offsets ker =
     concat (map (\<lambda>i. concat (map (\<lambda>j.
        if get_px ker (int i) (int j) \<noteq> 0
        then [(int i - int (height ker div 2), int j - int (width ker div 2))] else [])
        [0..<width ker])) [0..<height ker])"

definition dilate :: "gray \<Rightarrow> gray \<Rightarrow> gray" where
  "dilate src ker =
     mk_image (height src) (width src)
       (\<lambda>r c. fold (\<lambda>(dy, dx) m. max m (get_px src (int r + dy) (int c + dx)))
                (kernel_offsets ker) 0)"

section \<open>The pipeline\<close>

text \<open>
  \<open>add_halftone_shading(gray, strength)\<close>.  The block size of the halftone is
  \<^verbatim>\<open>int(clamp(10 - strength * 6, 4, 10))\<close>, computed on floats.
\<close>

definition halftone_block :: "rat \<Rightarrow> int" where
  "halftone_block strength = py_int (clamp (double (10 - double (strength * 6))) 4 10)"

definition add_halftone_shading :: "cvlib \<Rightarrow> gray \<Rightarrow> rat \<Rightarrow> error + gray" where
  "add_halftone_shading L gray strength =
     (if strength \<le> 0 then Inr (zeros_like gray)
      else
        let g = map_image (\<lambda>v. float32 (of_nat (unat v) / 255)) gray;
            g = map_image (\<lambda>x. np_power L x (3 / 4)) g;
            inv = map_image (\<lambda>x. float32 (1 - x)) g;
            h = int (height gray); w = int (width gray);
            block = halftone_block strength
        in bind (cv_resize (resize_float_px L) inv (w div block, h div block) INTER_AREA)
             (\<lambda>small.
                let thresh = float32 (55 / 100);
                    dots = times255 (astype_uint8 (greater_than small thresh))
                in bind (cv_resize (resize_gray_px L) dots (w, h) INTER_NEAREST)
                     (\<lambda>dots.
                        let dots = GaussianBlur L dots (3, 3) 0;
                            dots = times255 (astype_uint8 (greater_than dots 80))
                        in Inr dots)))"

text \<open>
  The stages of \<open>high_quality_stencil\<close>, in the order of the source.  Size normalisation
  (lines 80 to 84): \<^verbatim>\<open>scale = 1400 / max_side if max_side > 1400 else 1.0\<close> and, if
  \<^verbatim>\<open>scale != 1.0\<close>, a resize to \<^verbatim>\<open>(int(w * scale), int(h * scale))\<close>; the division and the
  products are float operations.
\<close>

definition resize_target :: "int \<Rightarrow> int \<Rightarrow> (int \<times> int) option" where
  "resize_target h w =
     (let max_side = max h w;
          scale = (if 1400 < max_side then double (1400 / of_int max_side) else 1)
      in if scale \<noteq> 1
         then Some (py_int (double (of_int w * scale)), py_int (double (of_int h * scale)))
         else None)"

definition normalize_size :: "cvlib \<Rightarrow> bgr \<Rightarrow> error + bgr" where
  "normalize_size L bgr =
     (case resize_target (int (height bgr)) (int (width bgr)) of
        Some dsize \<Rightarrow> cv_resize (resize_bgr_px L) bgr dsize INTER_AREA
      | None \<Rightarrow> Inr bgr)"

text \<open>Denoising, contrast and unsharp masking (lines 91 to 97).\<close>

definition enhance :: "cvlib \<Rightarrow> gray \<Rightarrow> gray" where
  "enhance L gray =
     (let den = bilateralFilter L gray 7 50 50;
          con = clahe_apply L (double (22 / 10)) (8, 8) den;
          blur = GaussianBlur L con (0, 0) 1
      in addWeighted L con (double (135 / 100)) blur (double (- 35 / 100)) 0)"

text \<open>Edges and adaptive threshold (lines 101 to 121).\<close>

definition canny_t1 :: "int \<Rightarrow> int" where
  "canny_t1 detail = 40 + (8 - detail) * 6"

definition canny_t2 :: "int \<Rightarrow> int" where
  "canny_t2 detail = 120 + (8 - detail) * 8"

definition adaptive_block :: "int \<Rightarrow> int" where
  "adaptive_block detail =
     (let block = clamp (31 - detail * 2) 15 31
      in if block mod 2 = 0 then block + 1 else block)"

definition line_extractor :: "cvlib \<Rightarrow> gray \<Rightarrow> int \<Rightarrow> error + gray" where
  "line_extractor L sharp detail =
     (let t1 = canny_t1 detail; t2 = canny_t2 detail;
          edges = Canny L sharp t1 t2;
          block = adaptive_block detail
      in bind (adaptiveThreshold L sharp 255 ADAPTIVE_THRESH_GAUSSIAN_C THRESH_BINARY block 2)
           (\<lambda>th. let th_inv = map_image (\<lambda>p. 255 - p) th
                 in bitwise_or edges th_inv))"

text \<open>Opening and closing with a 3 x 3 kernel of ones (lines 124 to 126).\<close>

definition cleanup :: "cvlib \<Rightarrow> gray \<Rightarrow> gray" where
  "cleanup L combo =
     (let ker = ones 3 3;
          combo = morphologyEx L combo MORPH_OPEN ker 1
      in morphologyEx L combo MORPH_CLOSE ker 1)"

text \<open>Skeleton (lines 129 and 130).\<close>

definition skeleton_step :: "cvlib \<Rightarrow> gray \<Rightarrow> gray" where
  "skeleton_step L combo =
     (let sk = astype_uint8 (greater_than combo 0)
      in times255 (astype_uint8 (skeletonize (skeleton_lut L) sk)))"

text \<open>Line weight dilation (lines 133 to 135).\<close>

definition line_renderer :: "gray \<Rightarrow> int \<Rightarrow> gray" where
  "line_renderer sk line_weight =
     (let k = clamp line_weight 1 8;
          dil_kernel = getStructuringElement MORPH_ELLIPSE (k, k)
      in dilate sk dil_kernel)"

text \<open>Shading strength (line 138): \<^verbatim>\<open>clamp((detail - 2) / 6.0, 0.0, 1.0)\<close>.\<close>

definition shade_strength :: "int \<Rightarrow> rat" where
  "shade_strength detail = clamp (double (of_int (detail - 2) / 6)) 0 1"

text \<open>
  Final ink mask and rendering (lines 142 to 151).  The canvas is a \<open>uint8\<close> array of ones
  times 255; the ink pixels receive \<^verbatim>\<open>(PURPLE[2], PURPLE[1], PURPLE[0])\<close>, the colour in the
  storage order B, G, R.
\<close>

definition ink_bgr :: "byte \<times> byte \<times> byte" where
  "ink_bgr = (case PURPLE of (r, g, b) \<Rightarrow> (word_of_int b, word_of_int g, word_of_int r))"

definition compositor :: "gray \<Rightarrow> gray \<Rightarrow> nat \<Rightarrow> nat \<Rightarrow> error + bgr" where
  "compositor lines shade h w =
     bind (bitwise_or lines shade)
       (\<lambda>ink. let ink_mask = astype_uint8 (greater_than ink 0);
                  out = mk_image h w (\<lambda>r c. (1 * 255, 1 * 255, 1 * 255))
              in masked_assign out ink_mask 1 ink_bgr)"

definition high_quality_stencil :: "cvlib \<Rightarrow> bgr \<Rightarrow> int \<Rightarrow> int \<Rightarrow> error + bgr" where
  "high_quality_stencil L bgr line_weight detail =
     (let line_weight = clamp line_weight 1 8;
          detail = clamp detail 1 8
      in bind (normalize_size L bgr)
           (\<lambda>bgr. bind (cvtColor L bgr COLOR_BGR2GRAY)
              (\<lambda>gray.
                 let sharp = enhance L gray
                 in bind (line_extractor L sharp detail)
                      (\<lambda>combo.
                         let combo = cleanup L combo;
                             sk = skeleton_step L combo;
                             lines = line_renderer sk line_weight
                         in bind (add_halftone_shading L sharp (shade_strength detail))
                              (\<lambda>shade. compositor lines shade (height bgr) (width bgr))))))"

text \<open>
  \<open>bgr_to_png_bytes\<close> hands the result to the encoder after \<open>cv2.cvtColor(bgr, COLOR_BGR2RGB)\<close>,
  which swaps the first and the third channel of every pixel.
\<close>

definition rgb_of_bgr :: "byte \<times> byte \<times> byte \<Rightarrow> byte \<times> byte \<times> byte" where
  "rgb_of_bgr p = (case p of (b, g, r) \<Rightarrow> (r, g, b))"

text \<open>
  The ink-candidate mask is the value of \<open>combo\<close> after line 121: the pipeline up to the
  OR of the edge mask and the inverted adaptive-threshold mask, before the cleanup.
\<close>

definition ink_candidate :: "cvlib \<Rightarrow> bgr \<Rightarrow> int \<Rightarrow> error + gray" where
  "ink_candidate L bgr detail =
     (let detail = clamp detail 1 8
      in bind (normalize_size L bgr)
           (\<lambda>bgr. bind (cvtColor L bgr COLOR_BGR2GRAY)
              (\<lambda>gray. let sharp = enhance L gray in line_extractor L sharp detail)))"

text \<open>Every ink pixel of the first mask is an ink pixel of the second.\<close>

definition mask_subset :: "gray \<Rightarrow> gray \<Rightarrow> bool" where
  "mask_subset a b = list_all (\<lambda>(x, y). x = 0 \<or> y \<noteq> 0) (zip (pixels a) (pixels b))"

section \<open>A concrete library for examples\<close>

text \<open>
  An instance of the library record on which the model can be run: rescaling picks the
  nearest source sample, the smoothing filters and the morphology copy their source, the
  edge detector marks a sample that differs from its right neighbour, the adaptive
  threshold compares with a fixed level, and the thinning table removes nothing.
\<close>

definition nearest_px :: "'a::zero image \<Rightarrow> nat \<Rightarrow> nat \<Rightarrow> interpolation \<Rightarrow> 'a raster" where
  "nearest_px src W H interp r c =
     get_px src (int (r * height src div H)) (int (c * width src div W))"

definition example_cv :: cvlib where
  "example_cv =
     \<lparr>resize_bgr_px = (\<lambda>src W H interp r c.
          pixels src ! ((r * height src div H) * width src + c * width src div W)),
      resize_float_px = nearest_px,
      resize_gray_px = nearest_px,
      cvtColor_px = (\<lambda>src code r c. fst (snd (pixels src ! (r * width src + c)))),
      bilateralFilter_px = (\<lambda>src d sc ss r c. get_px src (int r) (int c)),
      clahe_px = (\<lambda>clip tiles src r c. get_px src (int r) (int c)),
      GaussianBlur_px = (\<lambda>src ksize sigma r c. get_px src (int r) (int c)),
      addWeighted_px = (\<lambda>src1 alpha src2 beta gamma r c. get_px src1 (int r) (int c)),
      Canny_px = (\<lambda>src t1 t2 r c.
          if c + 1 < width src \<and> get_px src (int r) (int c) \<noteq> get_px src (int r) (int c + 1)
          then 255 else 0),
      adaptiveThreshold_px = (\<lambda>src maxValue method ty block C r c.
          if 127 < get_px src (int r) (int c) then word_of_int maxValue else 0),
      morphologyEx_px = (\<lambda>src op ker iterations r c. get_px src (int r) (int c)),
      skeleton_lut = (\<lambda>n. 0),
      np_power = (\<lambda>x y. x)\<rparr>"

definition example_image :: bgr where
  "example_image =
     \<lparr>height = 2, width = 3,
      pixels = [(255, 255, 255), (255, 255, 255), (255, 255, 255),
                (255, 255, 255), (0, 0, 0), (255, 255, 255)]\<rparr>"

text \<open>
  A second instance, whose edge detector and adaptive threshold listen to their
  parameters.  A sample is an edge when its two horizontal neighbours differ by more than
  the upper threshold.  The adaptive threshold compares a sample with the mean of the
  block around it (the border replicated) minus the offset, as \<open>THRESH_BINARY\<close> does.
\<close>

definition replicated_px :: "gray \<Rightarrow> int \<Rightarrow> int \<Rightarrow> int" where
  "replicated_px src r c =
     int (unat (get_px src (clamp r 0 (int (height src) - 1)) (clamp c 0 (int (width src) - 1))))"

definition block_mean :: "gray \<Rightarrow> int \<Rightarrow> int \<Rightarrow> int \<Rightarrow> int" where
  "block_mean src block r c =
     (let half = block div 2; offs = [- half..half]
      in sum_list (map (\<lambda>dy. sum_list (map (\<lambda>dx. replicated_px src (r + dy) (c + dx)) offs)) offs)
         div (block * block))"

definition block_mean_cv :: cvlib where
  "block_mean_cv =
     example_cv
       \<lparr>Canny_px := (\<lambda>src t1 t2 r c.
          if t2 < \<bar>replicated_px src (int r) (int c + 1) - replicated_px src (int r) (int c - 1)\<bar>
          then 255 else 0),
        adaptiveThreshold_px := (\<lambda>src maxValue method ty block C r c.
          if block_mean src block (int r) (int c) - C < replicated_px src (int r) (int c)
          then word_of_int maxValue else 0)\<rparr>"

text \<open>A dark strip of eight pixels that ends in a white pixel, and a dark pixel beside a light one.\<close>

definition strip_image :: bgr where
  "strip_image =
     \<lparr>height = 1, width = 9,
      pixels = [(60, 60, 60), (60, 60, 60), (60, 60, 60), (60, 60, 60), (60, 60, 60),
                (60, 60, 60), (60, 60, 60), (60, 60, 60), (255, 255, 255)]\<rparr>"

definition pair_image :: bgr where
  "pair_image = \<lparr>height = 1, width = 2, pixels = [(100, 100, 100), (225, 225, 225)]\<rparr>"

section \<open>Shapes, errors and clamping\<close>

lemma mk_image_shape [simp]:
  "height (mk_image h w f) = h" "width (mk_image h w f) = w"
  "length (pixels (mk_image h w f)) = h * w"
  by (simp_all add: mk_image_def)

lemma map_image_shape [simp]:
  "height (map_image f a) = height a" "width (map_image f a) = width a"
  "pixels (map_image f a) = map f (pixels a)"
  by (simp_all add: map_image_def)

lemma bind_simps [simp]:
  "bind (Inl e) f = Inl e" "bind (Inr x) f = f x"
  by (simp_all add: bind_def)

lemma bind_Inr_iff: "bind m f = Inr y \<longleftrightarrow> (\<exists>x. m = Inr x \<and> f x = Inr y)"
  by (cases m) simp_all

lemma clamp_range: "a \<le> b \<Longrightarrow> a \<le> clamp v a b \<and> clamp v a b \<le> b"
  by (simp add: clamp_def)

lemma clamp_idem: "a \<le> b \<Longrightarrow> clamp (clamp v a b) a b = clamp v a b"
  by (simp add: clamp_def)

lemma line_renderer_clamp: "line_renderer sk (clamp lw 1 8) = line_renderer sk lw"
  by (simp add: line_renderer_def clamp_idem)

lemma hqs_clamped:
  "high_quality_stencil L bgr (clamp lw 1 8) (clamp d 1 8) = high_quality_stencil L bgr lw d"
  by (simp add: high_quality_stencil_def clamp_idem)

section \<open>Parameter clamping\<close>

text \<open>
  Claim C1.  Both parameters are clamped into the range 1 to 8 before they are used, and
  no value of them is rejected: for every image and all integers \<open>lw\<close> and \<open>d\<close> the
  result of the pipeline (an image or the failure of a library call) is the result for
  the clamped parameters.  In particular line weight 0 gives what line weight 1 gives,
  and detail 99 gives what detail 8 gives.
\<close>

theorem parameters_clamped:
  "high_quality_stencil L bgr lw d = high_quality_stencil L bgr (clamp lw 1 8) (clamp d 1 8)
   \<and> 1 \<le> clamp lw 1 8 \<and> clamp lw 1 8 \<le> 8 \<and> 1 \<le> clamp d 1 8 \<and> clamp d 1 8 \<le> 8
   \<and> high_quality_stencil L bgr 0 d = high_quality_stencil L bgr 1 d
   \<and> high_quality_stencil L bgr lw 99 = high_quality_stencil L bgr lw 8"
proof -
  have a: "high_quality_stencil L bgr lw d = high_quality_stencil L bgr (clamp lw 1 8) (clamp d 1 8)"
    by (simp add: hqs_clamped)
  have b: "high_quality_stencil L bgr 0 d = high_quality_stencil L bgr 1 d"
    by (simp add: high_quality_stencil_def clamp_def)
  have c: "high_quality_stencil L bgr lw 99 = high_quality_stencil L bgr lw 8"
    by (simp add: high_quality_stencil_def clamp_def)
  show ?thesis using a b c by (simp add: clamp_def)
qed

theorem parameters_clamped_witness:
  "high_quality_stencil example_cv example_image 0 1 =
     high_quality_stencil example_cv example_image 1 1
   \<and> high_quality_stencil example_cv example_image 3 99 =
     high_quality_stencil example_cv example_image 3 8
   \<and> clamp (0::int) 1 8 = 1 \<and> clamp (99::int) 1 8 = 8"
  using parameters_clamped [of example_cv example_image 0 1]
    parameters_clamped [of example_cv example_image 3 99]
  by (simp add: clamp_def)

section \<open>Parameters of the line extractor\<close>

lemma adaptive_block_eq: "adaptive_block d = clamp (31 - d * 2) 15 31"
proof -
  have "clamp (31 - d * 2) 15 31 mod 2 = 1"
    unfolding clamp_def max_def min_def by (simp split: if_splits) presburger
  then show ?thesis by (simp add: adaptive_block_def Let_def)
qed

lemma adaptive_block_odd: "adaptive_block d mod 2 = 1 \<and> 1 < adaptive_block d"
proof -
  have "clamp (31 - d * 2) 15 31 mod 2 = 1"
    unfolding clamp_def max_def min_def by (simp split: if_splits) presburger
  moreover have "15 \<le> clamp (31 - d * 2) 15 31" by (simp add: clamp_def)
  ultimately show ?thesis by (simp add: adaptive_block_eq)
qed

text \<open>
  Claim C9.  For a detail between 1 and 8 the edge detector runs with the thresholds
  \<open>40 + (8 - d) * 6\<close> and \<open>120 + (8 - d) * 8\<close>; the adaptive threshold runs with the
  Gaussian method, offset 2 and block size \<open>clamp (31 - 2 * d) 15 31\<close>, which is
  \<open>31 - 2 * d\<close> and odd already, so that forcing it odd changes nothing and the library
  accepts it; the thresholded array is inverted (\<open>255 - th\<close>) before it is combined with
  the edges.
\<close>

theorem line_extractor_parameters:
  assumes "1 \<le> d" and "d \<le> 8"
  shows "canny_t1 d = 40 + (8 - d) * 6 \<and> canny_t2 d = 120 + (8 - d) * 8
     \<and> adaptive_block d = clamp (31 - 2 * d) 15 31 \<and> odd (adaptive_block d)
     \<and> adaptive_block d = 31 - 2 * d
     \<and> line_extractor L sharp d =
         bitwise_or (Canny L sharp (40 + (8 - d) * 6) (120 + (8 - d) * 8))
           (map_image (\<lambda>p. 255 - p)
              (mk_image (height sharp) (width sharp)
                 (adaptiveThreshold_px L sharp 255 ADAPTIVE_THRESH_GAUSSIAN_C THRESH_BINARY
                    (clamp (31 - 2 * d) 15 31) 2)))"
proof -
  have blk: "adaptive_block d = clamp (31 - 2 * d) 15 31"
    by (simp add: adaptive_block_eq mult.commute)
  have val: "clamp (31 - 2 * d) 15 31 = 31 - 2 * d"
    using assms by (simp add: clamp_def)
  have odd: "odd (adaptive_block d)"
    using adaptive_block_odd [of d] by (simp add: odd_iff_mod_2_eq_one)
  have ok: "adaptive_block d mod 2 = 1 \<and> 1 < adaptive_block d"
    by (rule adaptive_block_odd)
  have le: "line_extractor L sharp d =
         bitwise_or (Canny L sharp (40 + (8 - d) * 6) (120 + (8 - d) * 8))
           (map_image (\<lambda>p. 255 - p)
              (mk_image (height sharp) (width sharp)
                 (adaptiveThreshold_px L sharp 255 ADAPTIVE_THRESH_GAUSSIAN_C THRESH_BINARY
                    (adaptive_block d) 2)))"
    using ok by (simp add: line_extractor_def adaptiveThreshold_def canny_t1_def canny_t2_def Let_def)
  show ?thesis using blk val odd le by (simp add: canny_t1_def canny_t2_def)
qed


theorem line_extractor_parameters_witness:
  "(1::int) \<le> 4 \<and> (4::int) \<le> 8
   \<and> canny_t1 4 = 64 \<and> canny_t2 4 = 152 \<and> adaptive_block 4 = 23
   \<and> line_extractor example_cv \<lparr>height = 1, width = 2, pixels = [200, 100]\<rparr> 4 =
       Inr \<lparr>height = 1, width = 2, pixels = [255, 255]\<rparr>"
proof -
  have h: "(1::int) \<le> 4" "(4::int) \<le> 8" by simp_all
  have e: "bitwise_or (Canny example_cv \<lparr>height = 1, width = 2, pixels = [200, 100]\<rparr> 64 152)
           (map_image (\<lambda>p. 255 - p)
              (mk_image 1 2
                 (adaptiveThreshold_px example_cv \<lparr>height = 1, width = 2, pixels = [200, 100]\<rparr>
                    255 ADAPTIVE_THRESH_GAUSSIAN_C THRESH_BINARY 23 2)))
        = Inr \<lparr>height = 1, width = 2, pixels = [255, 255]\<rparr>"
    by code_simp
  show ?thesis
    using line_extractor_parameters [OF h, of example_cv "\<lparr>height = 1, width = 2, pixels = [200, 100]\<rparr>"] e
    by (simp add: clamp_def)
qed

section \<open>Shading is off at low detail\<close>

lemma round_half_even_nonneg: "0 \<le> q \<Longrightarrow> 0 \<le> round_half_even q"
  by (simp add: round_half_even_def Let_def)

lemma round_to_nonpos: "q \<le> 0 \<Longrightarrow> round_to p q \<le> 0"
proof (cases "q = 0")
  case True
  then show ?thesis by (simp add: round_to_def)
next
  case False
  assume "q \<le> 0"
  with False have neg: "q < 0" by simp
  let ?e = "binade \<bar>q\<bar>"
  let ?m = "round_half_even (\<bar>q\<bar> * power_int 2 (int p - 1 - ?e))"
  have "0 \<le> \<bar>q\<bar> * power_int 2 (int p - 1 - ?e)" by simp
  then have m: "0 \<le> ?m" by (rule round_half_even_nonneg)
  have "round_to p q = - (of_int ?m * power_int 2 (?e - (int p - 1)))"
    using neg by (simp add: round_to_def Let_def)
  moreover have "0 \<le> (of_int ?m :: rat) * power_int 2 (?e - (int p - 1))"
    using m by simp
  ultimately show ?thesis by simp
qed

lemma shade_strength_low: "d \<le> 2 \<Longrightarrow> shade_strength d = 0"
proof -
  assume "d \<le> 2"
  then have "(of_int (d - 2) :: rat) / 6 \<le> 0" by (simp add: divide_le_0_iff)
  then have "double (of_int (d - 2) / 6) \<le> 0"
    unfolding double_def by (rule round_to_nonpos)
  then show ?thesis by (simp add: shade_strength_def clamp_def)
qed

lemma zeros_like_shape [simp]:
  "height (zeros_like a) = height a" "width (zeros_like a) = width a"
  "pixels (zeros_like a) = replicate (height a * width a) 0"
  by (simp_all add: zeros_like_def)

text \<open>
  Claim C5.  For a detail of at most 2 the shading strength
  \<open>clamp ((d - 2) / 6) 0 1\<close> is not positive, and \<open>add_halftone_shading\<close> returns a
  mask of the shape of its input whose samples are all zero: no ink comes from the Shader.
\<close>

theorem shading_gated:
  assumes "d \<le> 2"
  shows "shade_strength d \<le> 0
     \<and> add_halftone_shading L sharp (shade_strength d) = Inr (zeros_like sharp)
     \<and> same_shape (zeros_like sharp) sharp
     \<and> list_all (\<lambda>p. p = 0) (pixels (zeros_like sharp))
     \<and> count_nonzero (zeros_like sharp) = 0"
proof -
  have s: "shade_strength d = 0" using assms by (rule shade_strength_low)
  have a: "add_halftone_shading L sharp (shade_strength d) = Inr (zeros_like sharp)"
    by (simp add: s add_halftone_shading_def)
  have b: "list_all (\<lambda>p. p = 0) (pixels (zeros_like sharp))"
    by (simp add: list_all_iff)
  have c: "count_nonzero (zeros_like sharp) = 0"
    by (simp add: count_nonzero_def)
  show ?thesis using s a b c by (simp add: same_shape_def)
qed

theorem shading_gated_witness:
  "(2::int) \<le> 2 \<and> shade_strength 2 = 0
   \<and> add_halftone_shading example_cv \<lparr>height = 1, width = 2, pixels = [200, 100]\<rparr> (shade_strength 2)
       = Inr \<lparr>height = 1, width = 2, pixels = [0, 0]\<rparr>"
proof -
  have h: "(2::int) \<le> 2" by simp
  have z: "zeros_like \<lparr>height = 1, width = 2, pixels = [200, 100]\<rparr>
           = \<lparr>height = 1, width = 2, pixels = [0, 0]\<rparr>"
    by code_simp
  have s: "shade_strength 2 = 0" by code_simp
  show ?thesis
    using shading_gated [OF h, of example_cv "\<lparr>height = 1, width = 2, pixels = [200, 100]\<rparr>"] z s
    by simp
qed

section \<open>The halftone block and small images\<close>

lemma halftone_block_values:
  "halftone_block (shade_strength 3) = 9" "halftone_block (shade_strength 4) = 8"
  "halftone_block (shade_strength 5) = 7" "halftone_block (shade_strength 6) = 6"
  "halftone_block (shade_strength 7) = 5" "halftone_block (shade_strength 8) = 4"
  by code_simp+

lemma shade_strength_pos:
  "0 < shade_strength 3" "0 < shade_strength 4" "0 < shade_strength 5"
  "0 < shade_strength 6" "0 < shade_strength 7" "0 < shade_strength 8"
  by code_simp+


lemma enhance_shape [simp]:
  "height (enhance L g) = height g" "width (enhance L g) = width g"
  "length (pixels (enhance L g)) = height g * width g"
  by (simp_all add: enhance_def addWeighted_def clahe_apply_def bilateralFilter_def
        GaussianBlur_def Let_def)

lemma line_extractor_ok:
  "\<exists>c. line_extractor L s d = Inr c \<and> height c = height s \<and> width c = width s
       \<and> length (pixels c) = height s * width s"
  using adaptive_block_odd [of d]
  by (simp add: line_extractor_def adaptiveThreshold_def bitwise_or_def Canny_def
        same_shape_def Let_def)

lemma halftone_block_range:
  assumes "3 \<le> d" and "d \<le> 8"
  shows "0 < shade_strength d \<and> halftone_block (shade_strength d) = 12 - d"
proof -
  from assms have "d = 3 \<or> d = 4 \<or> d = 5 \<or> d = 6 \<or> d = 7 \<or> d = 8" by presburger
  then show ?thesis
    using halftone_block_values shade_strength_pos by auto
qed

lemma shading_fails_small:
  assumes d: "3 \<le> d" "d \<le> 8"
    and small: "int (width g) < halftone_block (shade_strength d)
                \<or> int (height g) < halftone_block (shade_strength d)"
  shows "add_halftone_shading L g (shade_strength d) = Inl CvError"
proof -
  let ?b = "halftone_block (shade_strength d)"
  have s: "0 < shade_strength d" and b: "?b = 12 - d"
    using halftone_block_range [OF d] by simp_all
  have "int (width g) div ?b \<le> 0 \<or> int (height g) div ?b \<le> 0"
    using small by auto
  then show ?thesis
    using s by (simp add: add_halftone_shading_def Let_def cv_resize_def)
qed

lemma cvtColor_cases:
  "cvtColor L b code = Inl CvError \<or>
   (\<exists>g. cvtColor L b code = Inr g \<and> height g = height b \<and> width g = width b \<and> \<not> is_empty b)"
  by (simp add: cvtColor_def)

lemma hqs_fails_small:
  assumes n: "normalize_size L bgr = Inr b" and d: "3 \<le> d"
    and small: "int (width b) < halftone_block (shade_strength (clamp d 1 8))
                \<or> int (height b) < halftone_block (shade_strength (clamp d 1 8))"
  shows "high_quality_stencil L bgr lw d = Inl CvError"
proof -
  let ?d = "clamp d 1 8"
  have dr: "3 \<le> ?d" "?d \<le> 8" using d by (simp_all add: clamp_def)
  from cvtColor_cases [of L b COLOR_BGR2GRAY] show ?thesis
  proof
    assume "cvtColor L b COLOR_BGR2GRAY = Inl CvError"
    then show ?thesis by (simp add: high_quality_stencil_def n)
  next
    assume "\<exists>g. cvtColor L b COLOR_BGR2GRAY = Inr g \<and> height g = height b
              \<and> width g = width b \<and> \<not> is_empty b"
    then obtain g where g: "cvtColor L b COLOR_BGR2GRAY = Inr g"
      and hg: "height g = height b" "width g = width b" by blast
    obtain c where c: "line_extractor L (enhance L g) ?d = Inr c"
      using line_extractor_ok by blast
    have "int (width (enhance L g)) < halftone_block (shade_strength ?d)
          \<or> int (height (enhance L g)) < halftone_block (shade_strength ?d)"
      using small hg by simp
    with dr have "add_halftone_shading L (enhance L g) (shade_strength ?d) = Inl CvError"
      by (rule shading_fails_small)
    then show ?thesis by (simp add: high_quality_stencil_def n g c Let_def)
  qed
qed

lemma resize_target_small: "h \<le> 1400 \<Longrightarrow> w \<le> 1400 \<Longrightarrow> resize_target h w = None"
proof -
  assume "h \<le> 1400" and "w \<le> 1400"
  then have "\<not> 1400 < max h w" by simp
  then show ?thesis by (simp add: resize_target_def Let_def)
qed

lemma normalize_small: "h \<le> 1400 \<Longrightarrow> w \<le> 1400 \<Longrightarrow>
  normalize_size L \<lparr>height = h, width = w, pixels = ps\<rparr> = Inr \<lparr>height = h, width = w, pixels = ps\<rparr>"
  by (simp add: normalize_size_def resize_target_small)

lemma zero_area_fails:
  assumes "is_empty bgr"
  shows "high_quality_stencil L bgr lw d = Inl CvError"
proof (cases "resize_target (int (height bgr)) (int (width bgr))")
  case None
  then have "normalize_size L bgr = Inr bgr" by (simp add: normalize_size_def)
  moreover have "cvtColor L bgr COLOR_BGR2GRAY = Inl CvError"
    using assms by (simp add: cvtColor_def)
  ultimately show ?thesis by (simp add: high_quality_stencil_def)
next
  case (Some dsize)
  then have "normalize_size L bgr = Inl CvError"
    using assms by (simp add: normalize_size_def cv_resize_def split: prod.splits)
  then show ?thesis by (simp add: high_quality_stencil_def)
qed

text \<open>
  Claim C10.  The pipeline fails on images that are not empty.  Whenever the normalised
  image is narrower or lower than the halftone block (a number from 4 to 9 for a detail
  of 3 or more, within the stated bounds 4 to 10), one of the target dimensions
  \<open>w // block\<close>, \<open>h // block\<close> of the halftone downsampling is 0, the resize is rejected
  and \<open>high_quality_stencil\<close> returns no image.  Such images exist: a 1 x 1 image is one.
\<close>

theorem small_image_fails:
  assumes "normalize_size L bgr = Inr b" and "3 \<le> d"
    and "int (width b) < halftone_block (shade_strength (clamp d 1 8))
         \<or> int (height b) < halftone_block (shade_strength (clamp d 1 8))"
  shows "4 \<le> halftone_block (shade_strength (clamp d 1 8))
     \<and> halftone_block (shade_strength (clamp d 1 8)) \<le> 10
     \<and> (int (width b) div halftone_block (shade_strength (clamp d 1 8)) = 0
        \<or> int (height b) div halftone_block (shade_strength (clamp d 1 8)) = 0)
     \<and> high_quality_stencil L bgr lw d = Inl CvError
     \<and> (\<exists>img. 0 < height img \<and> 0 < width img
           \<and> high_quality_stencil L img lw d = Inl CvError)"
proof -
  let ?d = "clamp d 1 8"
  let ?b = "halftone_block (shade_strength ?d)"
  have dr: "3 \<le> ?d" "?d \<le> 8" using assms(2) by (simp_all add: clamp_def)
  have b: "?b = 12 - ?d" using halftone_block_range [OF dr] by simp
  have rng: "4 \<le> ?b \<and> ?b \<le> 10" using b dr by simp
  have zero: "int (width b) div ?b = 0 \<or> int (height b) div ?b = 0"
    using assms(3) by auto
  have fails: "high_quality_stencil L bgr lw d = Inl CvError"
    using assms by (rule hqs_fails_small)
  let ?img = "\<lparr>height = 1, width = 1, pixels = [(0, 0, 0)]\<rparr> :: bgr"
  have n1: "normalize_size L ?img = Inr ?img" by (simp add: normalize_small)
  have s1: "int (width ?img) < ?b \<or> int (height ?img) < ?b" using rng by simp
  have "high_quality_stencil L ?img lw d = Inl CvError"
    using n1 assms(2) s1 by (rule hqs_fails_small)
  then have ex: "\<exists>img::bgr. 0 < height img \<and> 0 < width img
           \<and> high_quality_stencil L img lw d = Inl CvError"
    by (intro exI [of _ ?img]) simp
  show ?thesis using rng zero fails ex by simp
qed

theorem small_image_fails_witness:
  "normalize_size example_cv example_image = Inr example_image \<and> (3::int) \<le> 3
   \<and> int (width example_image) < halftone_block (shade_strength (clamp 3 1 8))
   \<and> halftone_block (shade_strength (clamp 3 1 8)) = 9
   \<and> 0 < height example_image \<and> 0 < width example_image
   \<and> high_quality_stencil example_cv example_image 1 3 = Inl CvError"
proof -
  have n: "normalize_size example_cv example_image = Inr example_image"
    by code_simp
  have d: "(3::int) \<le> 3" by simp
  have c: "clamp (3::int) 1 8 = 3" by (simp add: clamp_def)
  have b: "halftone_block (shade_strength (clamp 3 1 8)) = 9"
    unfolding c by (rule halftone_block_values)
  have hw: "height example_image = 2" "width example_image = 3"
    by (simp_all add: example_image_def)
  have s: "int (width example_image) < halftone_block (shade_strength (clamp 3 1 8))
         \<or> int (height example_image) < halftone_block (shade_strength (clamp 3 1 8))"
    unfolding b hw by simp
  show ?thesis
    using small_image_fails [OF n d s, of 1] n b hw by simp
qed

text \<open>
  Claim C2.  Failure is not confined to empty images.  An image without area is rejected
  by the first library call that receives it (\<open>zero_area_fails\<close>), but so is a 3 x 3 image
  at detail 3, for every library and line weight: its halftone block is 9, the target of
  the downsampling is 0 x 0.
\<close>

theorem tiny_image_rejected:
  "0 < height \<lparr>height = 3, width = 3, pixels = ps\<rparr>
   \<and> 0 < width \<lparr>height = 3, width = 3, pixels = ps\<rparr>
   \<and> high_quality_stencil L \<lparr>height = 3, width = 3, pixels = ps\<rparr> lw 3 = Inl CvError"
proof -
  let ?img = "\<lparr>height = 3, width = 3, pixels = ps\<rparr> :: bgr"
  have n: "normalize_size L ?img = Inr ?img" by (simp add: normalize_small)
  have c: "clamp (3::int) 1 8 = 3" by (simp add: clamp_def)
  have b: "halftone_block (shade_strength (clamp 3 1 8)) = 9"
    unfolding c by (rule halftone_block_values)
  have s: "int (width ?img) < halftone_block (shade_strength (clamp 3 1 8))
        \<or> int (height ?img) < halftone_block (shade_strength (clamp 3 1 8))"
    unfolding b by simp
  have d: "(3::int) \<le> 3" by simp
  have "high_quality_stencil L ?img lw 3 = Inl CvError"
    using n d s by (rule hqs_fails_small)
  then show ?thesis by simp
qed


theorem tiny_image_rejected_witness:
  "high_quality_stencil example_cv \<lparr>height = 3, width = 3, pixels = replicate 9 (0, 0, 0)\<rparr> 1 3
     = Inl CvError"
  using tiny_image_rejected [of "replicate 9 (0, 0, 0)" example_cv 1] by simp

section \<open>Shapes through the stages\<close>

lemma dilate_shape [simp]:
  "height (dilate s k) = height s" "width (dilate s k) = width s"
  "length (pixels (dilate s k)) = height s * width s"
  by (simp_all add: dilate_def)

lemma line_renderer_shape [simp]:
  "height (line_renderer s lw) = height s" "width (line_renderer s lw) = width s"
  "length (pixels (line_renderer s lw)) = height s * width s"
  by (simp_all add: line_renderer_def Let_def)

lemma cleanup_shape [simp]:
  "height (cleanup L c) = height c" "width (cleanup L c) = width c"
  by (simp_all add: cleanup_def morphologyEx_def Let_def)

lemma skel_loop_shape:
  "height (skel_loop lut sk) = height sk \<and> width (skel_loop lut sk) = width sk"
proof (induction lut sk rule: skel_loop.induct)
  case (1 lut sk)
  let ?p1 = "thin_pass lut True sk"
  let ?p2 = "thin_pass lut False (fst ?p1)"
  have sh: "height (fst ?p2) = height sk \<and> width (fst ?p2) = width sk"
    by (simp add: thin_pass_shape)
  show ?case
  proof (cases "snd ?p1 \<or> snd ?p2")
    case True
    then have "skel_loop lut sk = skel_loop lut (fst ?p2)"
      by (subst skel_loop.simps) (simp add: Let_def)
    moreover have "height (skel_loop lut (fst ?p2)) = height (fst ?p2)
        \<and> width (skel_loop lut (fst ?p2)) = width (fst ?p2)"
      using True by (intro "1.IH") simp_all
    ultimately show ?thesis using sh by simp
  next
    case False
    then have "skel_loop lut sk = fst ?p2"
      by (subst skel_loop.simps) (simp add: Let_def)
    then show ?thesis using sh by simp
  qed
qed

lemma astype_uint8_shape [simp]:
  "height (astype_uint8 a) = height a" "width (astype_uint8 a) = width a"
  "length (pixels (astype_uint8 a)) = length (pixels a)"
  by (simp_all add: astype_uint8_def)

lemma greater_than_shape [simp]:
  "height (greater_than a v) = height a" "width (greater_than a v) = width a"
  "length (pixels (greater_than a v)) = length (pixels a)"
  by (simp_all add: greater_than_def)

lemma times255_shape [simp]:
  "height (times255 a) = height a" "width (times255 a) = width a"
  "length (pixels (times255 a)) = length (pixels a)"
  by (simp_all add: times255_def)

lemma skeleton_step_shape [simp]:
  "height (skeleton_step L c) = height c" "width (skeleton_step L c) = width c"
  by (simp_all add: skeleton_step_def skeletonize_def padded_def skel_loop_shape Let_def)

lemma shading_shape:
  assumes "add_halftone_shading L g s = Inr sh"
  shows "height sh = height g \<and> width sh = width g \<and> length (pixels sh) = height g * width g"
proof (cases "s \<le> 0")
  case True
  then show ?thesis using assms by (auto simp: add_halftone_shading_def)
next
  case False
  then show ?thesis using assms
    by (auto simp: add_halftone_shading_def Let_def bind_Inr_iff cv_resize_def GaussianBlur_def
          split: if_splits)
qed

lemma compositor_eq:
  assumes "height lines = h" "width lines = w" "height shade = h" "width shade = w"
    and "length (pixels lines) = h * w" "length (pixels shade) = h * w"
  shows "compositor lines shade h w =
     Inr \<lparr>height = h, width = w,
          pixels = map (\<lambda>(x, y). if x OR y \<noteq> 0 then ink_bgr else (255, 255, 255))
                     (zip (pixels lines) (pixels shade))\<rparr>"
proof -
  have eq: "compositor lines shade h w =
     Inr \<lparr>height = h, width = w,
          pixels = map (\<lambda>(m, p). if m = (1::byte) then ink_bgr else p)
            (zip (map (\<lambda>p. if 0 < p then 1 else 0)
                    (map (\<lambda>(x, y). x OR y) (zip (pixels lines) (pixels shade))))
                 (map (\<lambda>i. (255, 255, 255)) [0..<h * w]))\<rparr>"
    using assms(1-4)
    by (simp add: compositor_def bitwise_or_def masked_assign_def same_shape_def
          astype_uint8_def greater_than_def map_image_def mk_image_def Let_def comp_def)
  have px: "map (\<lambda>(m, p). if m = (1::byte) then ink_bgr else p)
            (zip (map (\<lambda>p. if 0 < p then 1 else 0)
                    (map (\<lambda>(x, y). x OR y) (zip (pixels lines) (pixels shade))))
                 (map (\<lambda>i. (255, 255, 255)) [0..<h * w]))
        = map (\<lambda>(x, y). if x OR y \<noteq> 0 then ink_bgr else (255, 255, 255))
            (zip (pixels lines) (pixels shade))"
    using assms(5,6) by (intro nth_equalityI) (auto simp: word_gt_0)
  show ?thesis unfolding eq px ..
qed

lemma hqs_structure:
  assumes "high_quality_stencil L bgr lw d = Inr out"
  shows "\<exists>b g c shade. normalize_size L bgr = Inr b \<and> cvtColor L b COLOR_BGR2GRAY = Inr g
     \<and> line_extractor L (enhance L g) (clamp d 1 8) = Inr c
     \<and> add_halftone_shading L (enhance L g) (shade_strength (clamp d 1 8)) = Inr shade
     \<and> compositor (line_renderer (skeleton_step L (cleanup L c)) (clamp lw 1 8)) shade
          (height b) (width b) = Inr out"
  using assms unfolding high_quality_stencil_def Let_def bind_Inr_iff by blast

lemma cvtColor_shape:
  "cvtColor L b code = Inr g \<Longrightarrow> height g = height b \<and> width g = width b"
  by (auto simp: cvtColor_def split: if_splits)

lemma line_extractor_shape:
  "line_extractor L s d = Inr c \<Longrightarrow> height c = height s \<and> width c = width s"
  using line_extractor_ok [of L s d] by auto

lemma hqs_output:
  assumes b: "normalize_size L bgr = Inr b" and g: "cvtColor L b COLOR_BGR2GRAY = Inr g"
    and c: "line_extractor L (enhance L g) (clamp d 1 8) = Inr c"
    and sh: "add_halftone_shading L (enhance L g) (shade_strength (clamp d 1 8)) = Inr shade"
  shows "high_quality_stencil L bgr lw d =
     Inr \<lparr>height = height b, width = width b,
          pixels = map (\<lambda>(x, y). if x OR y \<noteq> 0 then ink_bgr else (255, 255, 255))
                     (zip (pixels (line_renderer (skeleton_step L (cleanup L c)) (clamp lw 1 8)))
                          (pixels shade))\<rparr>
     \<and> length (pixels (line_renderer (skeleton_step L (cleanup L c)) (clamp lw 1 8)))
         = height b * width b
     \<and> length (pixels shade) = height b * width b"
proof -
  let ?lines = "line_renderer (skeleton_step L (cleanup L c)) (clamp lw 1 8)"
  have gs: "height g = height b" "width g = width b"
    using cvtColor_shape [OF g] by simp_all
  have cs: "height c = height b" "width c = width b"
    using line_extractor_shape [OF c] gs by simp_all
  have ls: "height ?lines = height b" "width ?lines = width b"
    "length (pixels ?lines) = height b * width b"
    using cs by simp_all
  have ss: "height shade = height b" "width shade = width b"
    "length (pixels shade) = height b * width b"
    using shading_shape [OF sh] gs by simp_all
  have "compositor ?lines shade (height b) (width b) =
     Inr \<lparr>height = height b, width = width b,
          pixels = map (\<lambda>(x, y). if x OR y \<noteq> 0 then ink_bgr else (255, 255, 255))
                     (zip (pixels ?lines) (pixels shade))\<rparr>"
    using ls ss by (intro compositor_eq)
  then show ?thesis
    using ls(3) ss(3) by (simp add: high_quality_stencil_def Let_def b g c sh)
qed

section \<open>The rendered image\<close>

lemma ink_bgr_rgb: "rgb_of_bgr ink_bgr = (140, 90, 255)"
  by (simp add: rgb_of_bgr_def ink_bgr_def PURPLE_def)

lemma white_rgb: "rgb_of_bgr (255, 255, 255) = (255, 255, 255)"
  by (simp add: rgb_of_bgr_def)

text \<open>
  Claim C7.  Whenever the pipeline returns an image, every pixel of it is white or the ink
  colour, RGB (140, 90, 255), stored as B, G, R.  The image has the dimensions of the
  normalised input, and its pixel \<open>i\<close> is ink exactly when the bitwise OR of the line mask
  (the dilated skeleton) and the shading mask is not zero at \<open>i\<close>; every other pixel keeps
  the white of the canvas.
\<close>

theorem output_two_colours:
  assumes "high_quality_stencil L bgr lw d = Inr out"
  shows "list_all (\<lambda>p. rgb_of_bgr p = (255, 255, 255) \<or> rgb_of_bgr p = (140, 90, 255))
           (pixels out)
     \<and> rgb_of_bgr ink_bgr = (140, 90, 255)
     \<and> (\<exists>b g c shade.
           normalize_size L bgr = Inr b \<and> cvtColor L b COLOR_BGR2GRAY = Inr g
         \<and> line_extractor L (enhance L g) (clamp d 1 8) = Inr c
         \<and> add_halftone_shading L (enhance L g) (shade_strength (clamp d 1 8)) = Inr shade
         \<and> height out = height b \<and> width out = width b
         \<and> length (pixels out) = height b * width b
         \<and> length (pixels (line_renderer (skeleton_step L (cleanup L c)) (clamp lw 1 8)))
             = height b * width b
         \<and> length (pixels shade) = height b * width b
         \<and> (\<forall>i < height b * width b.
               pixels out ! i =
                 (if pixels (line_renderer (skeleton_step L (cleanup L c)) (clamp lw 1 8)) ! i
                     OR pixels shade ! i \<noteq> 0
                  then ink_bgr else (255, 255, 255))))"
proof -
  from hqs_structure [OF assms] obtain b g c shade where
    b: "normalize_size L bgr = Inr b" and g: "cvtColor L b COLOR_BGR2GRAY = Inr g"
    and c: "line_extractor L (enhance L g) (clamp d 1 8) = Inr c"
    and sh: "add_halftone_shading L (enhance L g) (shade_strength (clamp d 1 8)) = Inr shade"
    by blast
  let ?lines = "line_renderer (skeleton_step L (cleanup L c)) (clamp lw 1 8)"
  let ?f = "\<lambda>(x, y). if x OR y \<noteq> 0 then ink_bgr else (255, 255, 255)"
  from hqs_output [OF b g c sh, of lw] assms
  have out: "out = \<lparr>height = height b, width = width b,
                     pixels = map ?f (zip (pixels ?lines) (pixels shade))\<rparr>"
    and ll: "length (pixels ?lines) = height b * width b"
    and ls: "length (pixels shade) = height b * width b"
    by simp_all
  have cols: "list_all (\<lambda>p. rgb_of_bgr p = (255, 255, 255) \<or> rgb_of_bgr p = (140, 90, 255))
           (pixels out)"
  proof -
    have "\<And>x y. rgb_of_bgr (?f (x, y)) = (255, 255, 255) \<or> rgb_of_bgr (?f (x, y)) = (140, 90, 255)"
      by (simp add: ink_bgr_rgb white_rgb)
    then show ?thesis unfolding out by (auto simp: list_all_iff simp del: split_paired_All)
  qed
  have shape: "height out = height b" "width out = width b"
    "length (pixels out) = height b * width b"
    unfolding out using ll ls by simp_all
  have px: "\<forall>i < height b * width b.
      pixels out ! i = (if pixels ?lines ! i OR pixels shade ! i \<noteq> 0
                        then ink_bgr else (255, 255, 255))"
    unfolding out using ll ls by simp
  show ?thesis
    using cols ink_bgr_rgb b g c sh shape ll ls px by blast
qed

lemma example_run:
  "high_quality_stencil example_cv example_image 1 1 =
     Inr \<lparr>height = 2, width = 3,
          pixels = [(255, 255, 255), (255, 255, 255), (255, 255, 255),
                    (255, 90, 140), (255, 90, 140), (255, 255, 255)]\<rparr>"
proof -
  let ?G = "\<lparr>height = 2, width = 3, pixels = [255, 255, 255, 255, 0, 255::byte]\<rparr>"
  let ?C = "\<lparr>height = 2, width = 3, pixels = [0, 0, 0, 255, 255, 0::byte]\<rparr>"
  let ?Z = "\<lparr>height = 2, width = 3, pixels = [0, 0, 0, 0, 0, 0::byte]\<rparr>"
  have n: "normalize_size example_cv example_image = Inr example_image"
    by code_simp
  have g: "cvtColor example_cv example_image COLOR_BGR2GRAY = Inr ?G"
    by code_simp
  have hw: "height example_image = 2" "width example_image = 3"
    by (simp_all add: example_image_def)
  have s: "enhance example_cv ?G = ?G"
    by code_simp
  have c: "line_extractor example_cv ?G 1 = Inr ?C"
    by code_simp
  have cl: "cleanup example_cv ?C = ?C"
    by code_simp
  have sk: "skeleton_step example_cv ?C = ?C"
    by code_simp
  have ln: "line_renderer ?C 1 = ?C"
    by code_simp
  have sh: "add_halftone_shading example_cv ?G (shade_strength 1) = Inr ?Z"
    by code_simp
  have cm: "compositor ?C ?Z 2 3 =
     Inr \<lparr>height = 2, width = 3,
          pixels = [(255, 255, 255), (255, 255, 255), (255, 255, 255),
                    (255, 90, 140), (255, 90, 140), (255, 255, 255)]\<rparr>"
    by code_simp
  show ?thesis
    unfolding high_quality_stencil_def Let_def
    by (simp add: clamp_def n g s c cl sk ln sh cm hw)
qed

theorem output_two_colours_witness:
  "high_quality_stencil example_cv example_image 1 1 =
     Inr \<lparr>height = 2, width = 3,
          pixels = [(255, 255, 255), (255, 255, 255), (255, 255, 255),
                    (255, 90, 140), (255, 90, 140), (255, 255, 255)]\<rparr>
   \<and> list_all (\<lambda>p. rgb_of_bgr p = (255, 255, 255) \<or> rgb_of_bgr p = (140, 90, 255))
        [(255, 255, 255), (255, 255, 255), (255, 255, 255),
         (255, 90, 140), (255, 90, 140), (255, 255, 255)]"
  using output_two_colours [OF example_run] example_run by simp

section \<open>Size normalisation\<close>

lemma hqs_low_detail:
  assumes n: "normalize_size L bgr = Inr b" and ne: "\<not> is_empty b" and d: "d \<le> 2"
  shows "\<exists>out. high_quality_stencil L bgr lw d = Inr out
           \<and> height out = height b \<and> width out = width b"
proof -
  obtain g where g: "cvtColor L b COLOR_BGR2GRAY = Inr g"
    using ne by (simp add: cvtColor_def)
  obtain c where c: "line_extractor L (enhance L g) (clamp d 1 8) = Inr c"
    using line_extractor_ok by blast
  have "clamp d 1 8 \<le> 2" using d by (simp add: clamp_def)
  then have "shade_strength (clamp d 1 8) = 0" by (rule shade_strength_low)
  then have sh: "add_halftone_shading L (enhance L g) (shade_strength (clamp d 1 8))
                 = Inr (zeros_like (enhance L g))"
    by (simp add: add_halftone_shading_def)
  from hqs_output [OF n g c sh, of lw] show ?thesis by simp
qed

lemma resize_target_2099: "resize_target 1000 2099 = Some (1399, 666)"
  by code_simp

text \<open>
  Claim C4.  The longer side of a normalised image is not always 1400.  For an image
  1000 high and 2099 wide, \<open>1400 / 2099\<close> rounds to a float whose product with 2099 rounds
  to the float just below 1400, and \<open>int\<close> truncates it: the resize target is 1399 x 666,
  and at detail 1 the pipeline returns an image of that size.  (An image no larger than
  1400 on both sides is passed on unchanged, \<open>normalize_small\<close>, and the output always has
  the size of the normalised image, \<open>hqs_output\<close>.)
\<close>

theorem oversize_not_1400:
  "resize_target 1000 2099 = Some (1399, 666)
   \<and> (\<exists>out. high_quality_stencil L \<lparr>height = 1000, width = 2099, pixels = ps\<rparr> lw 1 = Inr out
         \<and> width out = 1399 \<and> height out = 666 \<and> max (width out) (height out) = 1399)"
proof -
  let ?img = "\<lparr>height = 1000, width = 2099, pixels = ps\<rparr> :: bgr"
  let ?b = "mk_image 666 1399 (resize_bgr_px L ?img 1399 666 INTER_AREA)"
  have n: "normalize_size L ?img = Inr ?b"
    by (simp add: normalize_size_def resize_target_2099 cv_resize_def is_empty_def)
  have ne: "\<not> is_empty ?b" by (simp add: is_empty_def)
  have d: "(1::int) \<le> 2" by simp
  from hqs_low_detail [OF n ne d, of lw] obtain out where
    o: "high_quality_stencil L ?img lw 1 = Inr out" and h: "height out = 666"
    and w: "width out = 1399" by auto
  have "max (width out) (height out) = 1399" unfolding h w by simp
  then show ?thesis using o h w resize_target_2099 by blast
qed

theorem oversize_not_1400_witness:
  "\<exists>out. high_quality_stencil example_cv
            \<lparr>height = 1000, width = 2099, pixels = replicate (1000 * 2099) (0, 0, 0)\<rparr> 1 1 = Inr out
         \<and> width out = 1399 \<and> height out = 666"
  using oversize_not_1400 [of example_cv "replicate (1000 * 2099) (0, 0, 0)" 1] by blast

section \<open>Line weight\<close>

lemma byte_max_nonzero: "max (a::byte) b \<noteq> 0 \<longleftrightarrow> a \<noteq> 0 \<or> b \<noteq> 0"
  by (auto simp: max_def)

lemma fold_max_nonzero:
  "fold (\<lambda>(dy, dx) m. max m (get_px s (r + dy) (c + dx))) offs (a::byte) \<noteq> 0
   \<longleftrightarrow> a \<noteq> 0 \<or> (\<exists>(dy, dx)\<in>set offs. get_px s (r + dy) (c + dx) \<noteq> 0)"
proof (induction offs arbitrary: a)
  case Nil
  then show ?case by simp
next
  case (Cons o1 offs)
  obtain dy dx where o1: "o1 = (dy, dx)" by (cases o1)
  show ?case
    unfolding o1 by (simp add: Cons.IH byte_max_nonzero) blast
qed

lemma count_nonzero_mk_image:
  "count_nonzero (mk_image h w f) =
     length (filter (\<lambda>i. f (i div w) (i mod w) \<noteq> 0) [0..<h * w])"
  by (simp add: count_nonzero_def mk_image_def filter_map comp_def)

lemma dilate_count_mono:
  assumes "set (kernel_offsets k1) \<subseteq> set (kernel_offsets k2)"
  shows "count_nonzero (dilate s k1) \<le> count_nonzero (dilate s k2)"
  unfolding dilate_def count_nonzero_mk_image
proof (rule filter_length_le)
  fix i
  assume "fold (\<lambda>(dy, dx) m. max m (get_px s (int (i div width s) + dy) (int (i mod width s) + dx)))
            (kernel_offsets k1) 0 \<noteq> 0"
  then have "\<exists>(dy, dx)\<in>set (kernel_offsets k1).
        get_px s (int (i div width s) + dy) (int (i mod width s) + dx) \<noteq> 0"
    by (simp add: fold_max_nonzero)
  then have "\<exists>(dy, dx)\<in>set (kernel_offsets k2).
        get_px s (int (i div width s) + dy) (int (i mod width s) + dx) \<noteq> 0"
    using assms by blast
  then show "fold (\<lambda>(dy, dx) m. max m (get_px s (int (i div width s) + dy) (int (i mod width s) + dx)))
            (kernel_offsets k2) 0 \<noteq> 0"
    by (simp add: fold_max_nonzero)
qed

lemma ellipse_nested_step:
  "set (kernel_offsets (getStructuringElement MORPH_ELLIPSE (1, 1)))
     \<subseteq> set (kernel_offsets (getStructuringElement MORPH_ELLIPSE (2, 2)))"
  "set (kernel_offsets (getStructuringElement MORPH_ELLIPSE (2, 2)))
     \<subseteq> set (kernel_offsets (getStructuringElement MORPH_ELLIPSE (3, 3)))"
  "set (kernel_offsets (getStructuringElement MORPH_ELLIPSE (3, 3)))
     \<subseteq> set (kernel_offsets (getStructuringElement MORPH_ELLIPSE (4, 4)))"
  "set (kernel_offsets (getStructuringElement MORPH_ELLIPSE (4, 4)))
     \<subseteq> set (kernel_offsets (getStructuringElement MORPH_ELLIPSE (5, 5)))"
  "set (kernel_offsets (getStructuringElement MORPH_ELLIPSE (5, 5)))
     \<subseteq> set (kernel_offsets (getStructuringElement MORPH_ELLIPSE (6, 6)))"
  "set (kernel_offsets (getStructuringElement MORPH_ELLIPSE (6, 6)))
     \<subseteq> set (kernel_offsets (getStructuringElement MORPH_ELLIPSE (7, 7)))"
  "set (kernel_offsets (getStructuringElement MORPH_ELLIPSE (7, 7)))
     \<subseteq> set (kernel_offsets (getStructuringElement MORPH_ELLIPSE (8, 8)))"
  by code_simp+

lemma ellipse_nested_suc:
  assumes "1 \<le> k" and "k \<le> 7"
  shows "set (kernel_offsets (getStructuringElement MORPH_ELLIPSE (k, k)))
     \<subseteq> set (kernel_offsets (getStructuringElement MORPH_ELLIPSE (k + 1, k + 1)))"
proof -
  from assms have "k = 1 \<or> k = 2 \<or> k = 3 \<or> k = 4 \<or> k = 5 \<or> k = 6 \<or> k = 7" by presburger
  then show ?thesis using ellipse_nested_step by auto
qed

lemma ellipse_nested_add:
  "1 \<le> k \<Longrightarrow> k + int n \<le> 8 \<Longrightarrow>
   set (kernel_offsets (getStructuringElement MORPH_ELLIPSE (k, k)))
     \<subseteq> set (kernel_offsets (getStructuringElement MORPH_ELLIPSE (k + int n, k + int n)))"
proof (induction n)
  case 0
  then show ?case by simp
next
  case (Suc n)
  have a: "set (kernel_offsets (getStructuringElement MORPH_ELLIPSE (k, k)))
     \<subseteq> set (kernel_offsets (getStructuringElement MORPH_ELLIPSE (k + int n, k + int n)))"
    using Suc by simp
  have "1 \<le> k + int n" "k + int n \<le> 7" using Suc.prems by simp_all
  then have "set (kernel_offsets (getStructuringElement MORPH_ELLIPSE (k + int n, k + int n)))
     \<subseteq> set (kernel_offsets (getStructuringElement MORPH_ELLIPSE (k + int n + 1, k + int n + 1)))"
    by (rule ellipse_nested_suc)
  moreover have "k + int (Suc n) = k + int n + 1" by simp
  ultimately show ?case using a by (metis subset_trans)
qed

lemma ellipse_nested:
  assumes "1 \<le> k" and "k \<le> k'" and "k' \<le> 8"
  shows "set (kernel_offsets (getStructuringElement MORPH_ELLIPSE (k, k)))
     \<subseteq> set (kernel_offsets (getStructuringElement MORPH_ELLIPSE (k', k')))"
proof -
  have "k' = k + int (nat (k' - k))" using assms(2) by simp
  then show ?thesis using ellipse_nested_add [of k "nat (k' - k)"] assms by simp
qed

text \<open>
  Claim C6.  For a fixed skeleton (it depends on the image and the detail only), the
  number of ink pixels of the line mask does not decrease when the line weight grows.
  The elliptical structuring elements of the sizes 1 to 8, placed at their centres, are
  nested, and a dilation by a larger set of offsets sets at least the same pixels.  As
  the line weight is clamped, this holds for any two integers \<open>lw \<le> lw'\<close>.
\<close>

theorem line_weight_monotone:
  assumes "lw \<le> lw'"
  shows "count_nonzero (line_renderer sk lw) \<le> count_nonzero (line_renderer sk lw')"
proof -
  have "1 \<le> clamp lw 1 8" "clamp lw 1 8 \<le> clamp lw' 1 8" "clamp lw' 1 8 \<le> 8"
    using assms by (simp_all add: clamp_def)
  then have "set (kernel_offsets (getStructuringElement MORPH_ELLIPSE (clamp lw 1 8, clamp lw 1 8)))
     \<subseteq> set (kernel_offsets (getStructuringElement MORPH_ELLIPSE (clamp lw' 1 8, clamp lw' 1 8)))"
    by (rule ellipse_nested)
  then show ?thesis
    unfolding line_renderer_def Let_def by (rule dilate_count_mono)
qed

theorem line_weight_monotone_witness:
  "(1::int) \<le> 3
   \<and> count_nonzero (line_renderer \<lparr>height = 3, width = 3,
         pixels = [0, 0, 0, 0, 255, 0, 0, 0, 0]\<rparr> 1) = 1
   \<and> count_nonzero (line_renderer \<lparr>height = 3, width = 3,
         pixels = [0, 0, 0, 0, 255, 0, 0, 0, 0]\<rparr> 3) = 5"
proof -
  have h: "(1::int) \<le> 3" by simp
  have a: "count_nonzero (line_renderer \<lparr>height = 3, width = 3,
         pixels = [0, 0, 0, 0, 255, 0, 0, 0, 0]\<rparr> 1) = 1"
    by code_simp
  have b: "count_nonzero (line_renderer \<lparr>height = 3, width = 3,
         pixels = [0, 0, 0, 0, 255, 0, 0, 0, 0]\<rparr> 3) = 5"
    by code_simp
  show ?thesis
    using line_weight_monotone [OF h, of "\<lparr>height = 3, width = 3,
         pixels = [0, 0, 0, 0, 255, 0, 0, 0, 0]\<rparr>"] a b by simp
qed

section \<open>The skeleton is a fixed point\<close>

lemma get_px_padded: "get_px (padded s) r c = get_px s r c"
proof (cases "0 \<le> r \<and> r < int (height s) \<and> 0 \<le> c \<and> c < int (width s)")
  case True
  then have "nat r < height s" and "nat c < width s" by linarith+
  from get_px_mk_image [OF this, of "\<lambda>r c. get_px s (int r) (int c)"] True
  show ?thesis by (simp add: padded_def)
next
  case False
  then show ?thesis by (auto simp: get_px_def padded_def)
qed

lemma padded_shape [simp]:
  "height (padded s) = height s" "width (padded s) = width s"
  by (simp_all add: padded_def)

lemma thin_pass_cong:
  assumes "height a = height b" "width a = width b" "get_px a = get_px b"
  shows "thin_pass lut fp a = thin_pass lut fp b"
  unfolding thin_pass_def cleared_def neighbours_code_def assms by (rule refl)

lemma thin_pass_padded: "thin_pass lut fp (padded s) = thin_pass lut fp s"
proof (rule thin_pass_cong)
  show "get_px (padded s) = get_px s" by (intro ext) (rule get_px_padded)
qed simp_all

lemma padded_idem: "padded (padded s) = padded s"
proof -
  have "padded (padded s) =
      mk_image (height (padded s)) (width (padded s)) (\<lambda>r c. get_px (padded s) (int r) (int c))"
    by (rule padded_def)
  also have "\<dots> = mk_image (height s) (width s) (\<lambda>r c. get_px s (int r) (int c))"
    by (simp only: get_px_padded padded_shape)
  also have "\<dots> = padded s" by (simp only: padded_def)
  finally show ?thesis .
qed

lemma thin_pass_noop:
  assumes "\<not> snd (thin_pass lut fp s)"
  shows "fst (thin_pass lut fp s) = padded s"
proof -
  from assms have "\<And>i. i < height s * width s \<Longrightarrow>
      \<not> cleared lut fp s (i div width s) (i mod width s)"
    by (simp add: thin_pass_def list_ex_iff)
  then show ?thesis
    by (simp add: thin_pass_def padded_def mk_image_def)
qed

lemma skel_loop_fixed:
  "skel_loop lut sk = padded (skel_loop lut sk)
   \<and> \<not> snd (thin_pass lut True (skel_loop lut sk))
   \<and> \<not> snd (thin_pass lut False (skel_loop lut sk))"
proof (induction lut sk rule: skel_loop.induct)
  case (1 lut sk)
  let ?p1 = "thin_pass lut True sk"
  let ?p2 = "thin_pass lut False (fst ?p1)"
  show ?case
  proof (cases "snd ?p1 \<or> snd ?p2")
    case True
    then have "skel_loop lut sk = skel_loop lut (fst ?p2)"
      by (subst skel_loop.simps) (simp add: Let_def)
    moreover have "skel_loop lut (fst ?p2) = padded (skel_loop lut (fst ?p2))
        \<and> \<not> snd (thin_pass lut True (skel_loop lut (fst ?p2)))
        \<and> \<not> snd (thin_pass lut False (skel_loop lut (fst ?p2)))"
      using True by (intro "1.IH") simp_all
    ultimately show ?thesis by simp
  next
    case False
    then have n1: "\<not> snd ?p1" and n2: "\<not> snd ?p2" by simp_all
    have res: "skel_loop lut sk = fst ?p2"
      using False by (subst skel_loop.simps) (simp add: Let_def)
    have f1: "fst ?p1 = padded sk" using n1 by (rule thin_pass_noop)
    have p2: "?p2 = thin_pass lut False sk" by (simp add: f1 thin_pass_padded)
    have f2: "fst ?p2 = padded sk"
      using thin_pass_noop [OF n2] by (simp add: f1 padded_idem)
    have "\<not> snd (thin_pass lut True (padded sk))" using n1 by (simp add: thin_pass_padded)
    moreover have "\<not> snd (thin_pass lut False (padded sk))"
      using n2 p2 by (simp add: thin_pass_padded)
    ultimately show ?thesis by (simp add: res f2 padded_idem)
  qed
qed

lemma skel_loop_idem: "skel_loop lut (skel_loop lut sk) = skel_loop lut sk"
proof -
  let ?r = "skel_loop lut sk"
  from skel_loop_fixed [of lut sk] have pr: "padded ?r = ?r"
    and n1: "\<not> snd (thin_pass lut True ?r)" and n2: "\<not> snd (thin_pass lut False ?r)"
    by simp_all
  have f1: "fst (thin_pass lut True ?r) = ?r" using thin_pass_noop [OF n1] pr by simp
  have f2: "fst (thin_pass lut False ?r) = ?r" using thin_pass_noop [OF n2] pr by simp
  show ?thesis
    using n1 n2 by (subst skel_loop.simps) (simp add: Let_def f1 f2)
qed

lemma get_px_mk_image_cases:
  "get_px (mk_image h w f) r c =
     (if 0 \<le> r \<and> r < int h \<and> 0 \<le> c \<and> c < int w then f (nat r) (nat c) else 0)"
proof (cases "0 \<le> r \<and> r < int h \<and> 0 \<le> c \<and> c < int w")
  case True
  then have "nat r < h" and "nat c < w" by linarith+
  from get_px_mk_image [OF this, of f] True show ?thesis by simp
next
  case False
  then show ?thesis by (auto simp: get_px_def)
qed

lemma thin_pass_binary:
  assumes "\<And>r c. get_px s r c = 0 \<or> get_px s r c = 1"
  shows "get_px (fst (thin_pass lut fp s)) r c = 0 \<or> get_px (fst (thin_pass lut fp s)) r c = 1"
  using assms by (simp add: thin_pass_def get_px_mk_image_cases)

lemma skel_loop_binary:
  "(\<And>r c. get_px sk r c = 0 \<or> get_px sk r c = 1) \<Longrightarrow>
   get_px (skel_loop lut sk) r c = 0 \<or> get_px (skel_loop lut sk) r c = 1"
proof (induction lut sk arbitrary: r c rule: skel_loop.induct)
  case (1 lut sk)
  let ?p1 = "thin_pass lut True sk"
  let ?p2 = "thin_pass lut False (fst ?p1)"
  have b1: "\<And>r c. get_px (fst ?p1) r c = 0 \<or> get_px (fst ?p1) r c = 1"
    using "1.prems" by (rule thin_pass_binary)
  have b2: "\<And>r c. get_px (fst ?p2) r c = 0 \<or> get_px (fst ?p2) r c = 1"
    using b1 by (rule thin_pass_binary)
  show ?case
  proof (cases "snd ?p1 \<or> snd ?p2")
    case True
    then have "skel_loop lut sk = skel_loop lut (fst ?p2)"
      by (subst skel_loop.simps) (simp add: Let_def)
    moreover have "get_px (skel_loop lut (fst ?p2)) r c = 0
        \<or> get_px (skel_loop lut (fst ?p2)) r c = 1"
      using True b2 by (intro "1.IH") simp_all
    ultimately show ?thesis by simp
  next
    case False
    then have "skel_loop lut sk = fst ?p2"
      by (subst skel_loop.simps) (simp add: Let_def)
    then show ?thesis using b2 by simp
  qed
qed

lemma binarised_get:
  "get_px (astype_uint8 (greater_than m 0)) r c = 0
   \<or> get_px (astype_uint8 (greater_than m 0)) r c = 1"
  by (simp add: get_px_def astype_uint8_def greater_than_def map_image_def)

lemma binarised_fix:
  assumes "\<And>p. p \<in> set (pixels r) \<Longrightarrow> p = 0 \<or> p = 1"
  shows "astype_uint8 (greater_than r 0) = r"
    and "astype_uint8 (greater_than (times255 r) 0) = r"
proof -
  have a: "map (\<lambda>p. if 0 < p then 1 else 0) (pixels r) = pixels r"
    using assms by (intro map_idI) (auto simp: word_gt_0)
  have b: "map (\<lambda>p. if 0 < p * 255 then 1 else 0) (pixels r) = pixels r"
  proof (intro map_idI)
    fix x assume "x \<in> set (pixels r)"
    then have "x = 0 \<or> x = 1" by (rule assms)
    then show "(if 0 < x * 255 then 1 else 0) = x" by auto
  qed
  show "astype_uint8 (greater_than r 0) = r"
    using a by (simp add: astype_uint8_def greater_than_def map_image_def comp_def)
  show "astype_uint8 (greater_than (times255 r) 0) = r"
    using b by (simp add: astype_uint8_def greater_than_def times255_def map_image_def comp_def)
qed

lemma padded_pixels_binary:
  assumes "padded r = r" and "\<And>y x. get_px r y x = 0 \<or> get_px r y x = 1"
  shows "p \<in> set (pixels r) \<Longrightarrow> p = 0 \<or> p = 1"
proof -
  assume "p \<in> set (pixels r)"
  then have "p \<in> set (pixels (padded r))" using assms(1) by simp
  then show ?thesis using assms(2) by (auto simp: padded_def mk_image_def)
qed

text \<open>
  Claim C8.  The skeleton step is idempotent: applied to its own output it returns that
  output, for every mask and every thinning table.  The loop stops only after a pair of
  sweeps that removed nothing, so its result is an array that both sweeps leave as it
  is; run on that array again, the loop stops after its first pair of sweeps.
\<close>

theorem skeleton_idempotent:
  "skeleton_step L (skeleton_step L m) = skeleton_step L m"
proof -
  let ?lut = "skeleton_lut L"
  let ?s0 = "padded (astype_uint8 (greater_than (astype_uint8 (greater_than m 0)) 0))"
  let ?r = "skel_loop ?lut ?s0"
  have step: "skeleton_step L m = times255 (astype_uint8 (greater_than ?r 0))"
    by (simp add: skeleton_step_def skeletonize_def Let_def)
  have pr: "padded ?r = ?r" using skel_loop_fixed [of ?lut ?s0] by simp
  have "\<And>y x. get_px ?s0 y x = 0 \<or> get_px ?s0 y x = 1"
    by (simp only: get_px_padded binarised_get)
  then have bin: "\<And>y x. get_px ?r y x = 0 \<or> get_px ?r y x = 1"
    by (rule skel_loop_binary)
  have px: "\<And>p. p \<in> set (pixels ?r) \<Longrightarrow> p = 0 \<or> p = 1"
    using pr bin by (rule padded_pixels_binary)
  have a: "astype_uint8 (greater_than ?r 0) = ?r" using px by (rule binarised_fix(1))
  have b: "astype_uint8 (greater_than (times255 ?r) 0) = ?r"
    using px by (rule binarised_fix(2))
  have c: "astype_uint8 (greater_than
              (astype_uint8 (greater_than (times255 (astype_uint8 (greater_than ?r 0))) 0)) 0) = ?r"
    by (simp only: a b)
  have "skeleton_step L (times255 (astype_uint8 (greater_than ?r 0)))
        = times255 (astype_uint8 (greater_than (skel_loop ?lut (padded
            (astype_uint8 (greater_than
              (astype_uint8 (greater_than (times255 (astype_uint8 (greater_than ?r 0))) 0)) 0))))
            0))"
    unfolding skeleton_step_def skeletonize_def Let_def ..
  also have "\<dots> = times255 (astype_uint8 (greater_than ?r 0))"
    by (simp only: c pr skel_loop_idem)
  finally show ?thesis unfolding step .
qed

theorem skeleton_idempotent_witness:
  "skeleton_step (example_cv\<lparr>skeleton_lut := (\<lambda>n. if n = 0 then 3 else 0)\<rparr>)
     \<lparr>height = 2, width = 3, pixels = [255, 0, 7, 0, 0, 9]\<rparr>
     = \<lparr>height = 2, width = 3, pixels = [0, 0, 255, 0, 0, 255]\<rparr>
   \<and> skeleton_step (example_cv\<lparr>skeleton_lut := (\<lambda>n. if n = 0 then 3 else 0)\<rparr>)
     \<lparr>height = 2, width = 3, pixels = [0, 0, 255, 0, 0, 255]\<rparr>
     = \<lparr>height = 2, width = 3, pixels = [0, 0, 255, 0, 0, 255]\<rparr>"
proof -
  have e: "skeleton_step (example_cv\<lparr>skeleton_lut := (\<lambda>n. if n = 0 then 3 else 0)\<rparr>)
     \<lparr>height = 2, width = 3, pixels = [255, 0, 7, 0, 0, 9]\<rparr>
     = \<lparr>height = 2, width = 3, pixels = [0, 0, 255, 0, 0, 255]\<rparr>"
    by code_simp
  show ?thesis
    using skeleton_idempotent [of "example_cv\<lparr>skeleton_lut := (\<lambda>n. if n = 0 then 3 else 0)\<rparr>"
        "\<lparr>height = 2, width = 3, pixels = [255, 0, 7, 0, 0, 9]\<rparr>"] e
    by simp
qed

section \<open>Detail and the ink candidates\<close>

lemma line_extractor_eq:
  "line_extractor L s d =
     bitwise_or (Canny L s (canny_t1 d) (canny_t2 d))
       (map_image (\<lambda>p. 255 - p)
          (mk_image (height s) (width s)
             (adaptiveThreshold_px L s 255 ADAPTIVE_THRESH_GAUSSIAN_C THRESH_BINARY
                (adaptive_block d) 2)))"
  using adaptive_block_odd [of d]
  by (simp add: line_extractor_def adaptiveThreshold_def Let_def)

lemma count_by_index:
  "length (filter P xs) = length (filter (\<lambda>i. P (xs ! i)) [0..<length xs])"
proof -
  have "filter P xs = filter P (map ((!) xs) [0..<length xs])" by (simp add: map_nth)
  also have "\<dots> = map ((!) xs) (filter (\<lambda>i. P (xs ! i)) [0..<length xs])"
    by (simp add: filter_map comp_def)
  finally show ?thesis by (metis length_map)
qed

lemma mask_subset_nth:
  assumes "mask_subset a b" and "i < length (pixels a)" and "i < length (pixels b)"
  shows "pixels a ! i = 0 \<or> pixels b ! i \<noteq> 0"
proof -
  have "(pixels a ! i, pixels b ! i) \<in> set (zip (pixels a) (pixels b))"
    using assms(2,3) by (auto simp: set_zip)
  then show ?thesis using assms(1) by (auto simp: mask_subset_def list_all_iff)
qed

lemma or_count_mono:
  assumes n: "length (pixels e) = n" "length (pixels t) = n"
      "length (pixels e') = n" "length (pixels t') = n"
    and e: "mask_subset e e'" and t: "mask_subset t t'"
  shows "length (filter (\<lambda>p. p \<noteq> 0) (map (\<lambda>(x, y). x OR y) (zip (pixels e) (pixels t))))
       \<le> length (filter (\<lambda>p. p \<noteq> (0::byte)) (map (\<lambda>(x, y). x OR y) (zip (pixels e') (pixels t'))))"
proof -
  let ?a = "map (\<lambda>(x, y). x OR y) (zip (pixels e) (pixels t))"
  let ?b = "map (\<lambda>(x, y). x OR y) (zip (pixels e') (pixels t'))"
  have la: "length ?a = n" and lb: "length ?b = n" using n by simp_all
  have "length (filter (\<lambda>i. ?a ! i \<noteq> 0) [0..<n]) \<le> length (filter (\<lambda>i. ?b ! i \<noteq> 0) [0..<n])"
  proof (rule filter_length_le)
    fix i assume "i \<in> set [0..<n]" and nz: "?a ! i \<noteq> 0"
    then have i: "i < n" by simp
    have ea: "pixels e ! i = 0 \<or> pixels e' ! i \<noteq> 0"
      using e i n by (intro mask_subset_nth) simp_all
    have ta: "pixels t ! i = 0 \<or> pixels t' ! i \<noteq> 0"
      using t i n by (intro mask_subset_nth) simp_all
    from nz i n have "pixels e ! i \<noteq> 0 \<or> pixels t ! i \<noteq> 0" by (simp add: or_eq_0_iff)
    then have "pixels e' ! i \<noteq> 0 \<or> pixels t' ! i \<noteq> 0" using ea ta by blast
    then show "?b ! i \<noteq> 0" using i n by (simp add: or_eq_0_iff)
  qed
  then show ?thesis
    using count_by_index [of "\<lambda>p. p \<noteq> 0" ?a] count_by_index [of "\<lambda>p. p \<noteq> 0" ?b] la lb
    by simp
qed

lemma hqs_candidate:
  assumes "high_quality_stencil L bgr lw d = Inr out"
  shows "\<exists>c. ink_candidate L bgr d = Inr c"
proof -
  from hqs_structure [OF assms] obtain b g c where
    "normalize_size L bgr = Inr b" "cvtColor L b COLOR_BGR2GRAY = Inr g"
    "line_extractor L (enhance L g) (clamp d 1 8) = Inr c" by blast
  then show ?thesis by (simp add: ink_candidate_def Let_def)
qed

text \<open>
  The number of ink candidates is not monotone in the detail.  With an adaptive threshold
  that compares each sample with the mean of its block, the first pixel of the dark
  strip is a candidate at detail 7 (block 17: the white pixel eight columns away lifts
  the mean) and not at detail 8 (block 15: the block is all dark); the edges are the same
  at both details.  The count falls from 9 to 8.
\<close>

lemma strip_prefix:
  "normalize_size block_mean_cv strip_image = Inr strip_image"
  "cvtColor block_mean_cv strip_image COLOR_BGR2GRAY
     = Inr \<lparr>height = 1, width = 9, pixels = [60, 60, 60, 60, 60, 60, 60, 60, 255]\<rparr>"
  "enhance block_mean_cv \<lparr>height = 1, width = 9, pixels = [60, 60, 60, 60, 60, 60, 60, 60, 255]\<rparr>
     = \<lparr>height = 1, width = 9, pixels = [60, 60, 60, 60, 60, 60, 60, 60, 255]\<rparr>"
  by code_simp+

lemma strip_detail_7:
  "line_extractor block_mean_cv
     \<lparr>height = 1, width = 9, pixels = [60, 60, 60, 60, 60, 60, 60, 60, 255]\<rparr> 7
   = Inr \<lparr>height = 1, width = 9, pixels = [255, 255, 255, 255, 255, 255, 255, 255, 255]\<rparr>"
  by code_simp

lemma strip_detail_8:
  "line_extractor block_mean_cv
     \<lparr>height = 1, width = 9, pixels = [60, 60, 60, 60, 60, 60, 60, 60, 255]\<rparr> 8
   = Inr \<lparr>height = 1, width = 9, pixels = [0, 255, 255, 255, 255, 255, 255, 255, 255]\<rparr>"
  by code_simp



lemma pair_prefix:
  "normalize_size block_mean_cv pair_image = Inr pair_image"
  "cvtColor block_mean_cv pair_image COLOR_BGR2GRAY
     = Inr \<lparr>height = 1, width = 2, pixels = [100, 225]\<rparr>"
  "enhance block_mean_cv \<lparr>height = 1, width = 2, pixels = [100, 225]\<rparr>
     = \<lparr>height = 1, width = 2, pixels = [100, 225]\<rparr>"
  by code_simp+

lemma pair_thresholds:
  "adaptiveThreshold block_mean_cv \<lparr>height = 1, width = 2, pixels = [100, 225]\<rparr> 255
     ADAPTIVE_THRESH_GAUSSIAN_C THRESH_BINARY (adaptive_block 7) 2
   = Inr \<lparr>height = 1, width = 2, pixels = [0, 255]\<rparr>"
  "adaptiveThreshold block_mean_cv \<lparr>height = 1, width = 2, pixels = [100, 225]\<rparr> 255
     ADAPTIVE_THRESH_GAUSSIAN_C THRESH_BINARY (adaptive_block 8) 2
   = Inr \<lparr>height = 1, width = 2, pixels = [0, 255]\<rparr>"
  by code_simp+

lemma pair_edges:
  "Canny block_mean_cv \<lparr>height = 1, width = 2, pixels = [100, 225]\<rparr> (canny_t1 7) (canny_t2 7)
   = \<lparr>height = 1, width = 2, pixels = [0, 0]\<rparr>"
  "Canny block_mean_cv \<lparr>height = 1, width = 2, pixels = [100, 225]\<rparr> (canny_t1 8) (canny_t2 8)
   = \<lparr>height = 1, width = 2, pixels = [255, 255]\<rparr>"
  by code_simp+

lemma pair_candidates:
  "line_extractor block_mean_cv \<lparr>height = 1, width = 2, pixels = [100, 225]\<rparr> 7
   = Inr \<lparr>height = 1, width = 2, pixels = [255, 0]\<rparr>"
  "line_extractor block_mean_cv \<lparr>height = 1, width = 2, pixels = [100, 225]\<rparr> 8
   = Inr \<lparr>height = 1, width = 2, pixels = [255, 255]\<rparr>"
  by code_simp+


end
